theory Spec2Isabelle
  imports Complex_Main
begin

section \<open>CGAL \<open>Deform_mesh\<close>: as-rigid-as-possible surface deformation\<close>

text \<open>
  A shallow embedding of the class \<open>CGAL::Deform_mesh\<close> of
  \<^verbatim>\<open>Surface_modeling/include/CGAL/Deform_mesh.h\<close>.

  Conventions of the embedding:
  \<^item> A \<open>vertex_descriptor\<close> is identified with the id the constructor stores for it in
    \<open>vertex_index_map\<close> (its position in \<open>boost::vertices\<close>), an \<open>edge_descriptor\<close>
    with its id in \<open>edge_index_map\<close>; the two index maps are then the identity.
  \<^item> The positions, rotations and weights the class stores are finite \<open>double\<close>s, written
    as \<open>real\<close>, and the steps that update them compute in exact arithmetic. The energy
    and the termination test of \<open>deform\<close> compute in \<open>double\<close> with rounding, overflow,
    infinities and NaN, as their outcome depends on them.
  \<^item> \<open>std::size_t\<close> is \<open>nat\<close>; the mark \<open>-1\<close> is \<open>2 ^ 64 - 1\<close>.
  \<^item> Indexing a \<open>std::vector\<close> out of range is undefined behaviour in the source. The
    model reads with \<open>!\<close> and writes with list update; the theorems carry the
    hypotheses under which every access is in range.
  \<^item> The sparse solver, the SVD of Eigen, the weight functor and the quaternion are
    external collaborators and are parameters of the model.
\<close>

subsection \<open>Points, vectors and 3x3 matrices\<close>

type_synonym vec3 = "real \<times> real \<times> real"
type_synonym mat3 = "vec3 \<times> vec3 \<times> vec3"

definition vec_add :: "vec3 \<Rightarrow> vec3 \<Rightarrow> vec3" where
  "vec_add a b = (case a of (a1, a2, a3) \<Rightarrow> case b of (b1, b2, b3) \<Rightarrow> (a1 + b1, a2 + b2, a3 + b3))"

definition sub_to_col :: "vec3 \<Rightarrow> vec3 \<Rightarrow> vec3" where
  "sub_to_col p1 p2 =
     (case p1 of (x1, y1, z1) \<Rightarrow> case p2 of (x2, y2, z2) \<Rightarrow> (x1 - x2, y1 - y2, z1 - z2))"

definition sub_to_row :: "vec3 \<Rightarrow> vec3 \<Rightarrow> vec3" where
  "sub_to_row p1 p2 =
     (case p1 of (x1, y1, z1) \<Rightarrow> case p2 of (x2, y2, z2) \<Rightarrow> (x1 - x2, y1 - y2, z1 - z2))"

definition vec_scale :: "real \<Rightarrow> vec3 \<Rightarrow> vec3" where
  "vec_scale c a = (case a of (a1, a2, a3) \<Rightarrow> (c * a1, c * a2, c * a3))"

definition dot :: "vec3 \<Rightarrow> vec3 \<Rightarrow> real" where
  "dot a b = (case a of (a1, a2, a3) \<Rightarrow> case b of (b1, b2, b3) \<Rightarrow> a1 * b1 + a2 * b2 + a3 * b3)"

definition mat_zero :: mat3 where
  "mat_zero = ((0, 0, 0), (0, 0, 0), (0, 0, 0))"

definition mat_identity :: mat3 where
  "mat_identity = ((1, 0, 0), (0, 1, 0), (0, 0, 1))"

definition mat_add :: "mat3 \<Rightarrow> mat3 \<Rightarrow> mat3" where
  "mat_add A B = (case A of (r1, r2, r3) \<Rightarrow> case B of (s1, s2, s3) \<Rightarrow>
     (vec_add r1 s1, vec_add r2 s2, vec_add r3 s3))"

definition mat_scale :: "real \<Rightarrow> mat3 \<Rightarrow> mat3" where
  "mat_scale c A = (case A of (r1, r2, r3) \<Rightarrow> (vec_scale c r1, vec_scale c r2, vec_scale c r3))"

definition mat_vec :: "mat3 \<Rightarrow> vec3 \<Rightarrow> vec3" where
  "mat_vec A x = (case A of (r1, r2, r3) \<Rightarrow> (dot r1 x, dot r2 x, dot r3 x))"

definition mat_transpose :: "mat3 \<Rightarrow> mat3" where
  "mat_transpose A = (case A of ((a11, a12, a13), (a21, a22, a23), (a31, a32, a33)) \<Rightarrow>
     ((a11, a21, a31), (a12, a22, a32), (a13, a23, a33)))"

definition mat_mul :: "mat3 \<Rightarrow> mat3 \<Rightarrow> mat3" where
  "mat_mul A B = (case mat_transpose B of (c1, c2, c3) \<Rightarrow> case A of (r1, r2, r3) \<Rightarrow>
     ((dot r1 c1, dot r1 c2, dot r1 c3),
      (dot r2 c1, dot r2 c2, dot r2 c3),
      (dot r3 c1, dot r3 c2, dot r3 c3)))"

text \<open>The product of a column vector with a row vector (\<open>pij * qij\<close> in the source).\<close>

definition outer :: "vec3 \<Rightarrow> vec3 \<Rightarrow> mat3" where
  "outer p q = (case p of (p1, p2, p3) \<Rightarrow> (vec_scale p1 q, vec_scale p2 q, vec_scale p3 q))"

definition determinant :: "mat3 \<Rightarrow> real" where
  "determinant A = (case A of ((a11, a12, a13), (a21, a22, a23), (a31, a32, a33)) \<Rightarrow>
     a11 * (a22 * a33 - a23 * a32) - a12 * (a21 * a33 - a23 * a31)
       + a13 * (a21 * a32 - a22 * a31))"

text \<open>\<open>u_m.col(2) *= -1\<close>: the sign of the third column is flipped.\<close>

definition negate_col2 :: "mat3 \<Rightarrow> mat3" where
  "negate_col2 A = (case A of ((a11, a12, a13), (a21, a22, a23), (a31, a32, a33)) \<Rightarrow>
     ((a11, a12, - a13), (a21, a22, - a23), (a31, a32, - a33)))"

subsection \<open>Double precision\<close>

text \<open>
  A \<open>double\<close> is a finite value, an infinity or not a number. An operation on finite
  operands delivers the rounded exact result, or an infinity when the rounded result
  lies beyond the largest finite \<open>double\<close>. The rounding function \<open>rnd\<close> is a parameter:
  the arithmetic of the machine. A zero carries no sign here; its sign decides only the
  sign of a quotient by it, and the division of the termination test is under
  \<open>std::abs\<close>.
\<close>

datatype double = Finite real | PosInf | NegInf | NaN

definition DBL_MAX :: real where
  "DBL_MAX = (2 - 1 / 2 ^ 52) * 2 ^ 1023"

definition fl :: "(real \<Rightarrow> real) \<Rightarrow> real \<Rightarrow> double" where
  "fl rnd x =
     (let y = rnd x
      in if DBL_MAX < y then PosInf else if y < - DBL_MAX then NegInf else Finite y)"

fun dneg :: "double \<Rightarrow> double" where
  "dneg (Finite x) = Finite (- x)"
| "dneg PosInf = NegInf"
| "dneg NegInf = PosInf"
| "dneg NaN = NaN"

fun dadd :: "(real \<Rightarrow> real) \<Rightarrow> double \<Rightarrow> double \<Rightarrow> double" where
  "dadd rnd NaN b = NaN"
| "dadd rnd a NaN = NaN"
| "dadd rnd (Finite x) (Finite y) = fl rnd (x + y)"
| "dadd rnd (Finite x) b = b"
| "dadd rnd a (Finite y) = a"
| "dadd rnd PosInf PosInf = PosInf"
| "dadd rnd NegInf NegInf = NegInf"
| "dadd rnd a b = NaN"

definition dsub :: "(real \<Rightarrow> real) \<Rightarrow> double \<Rightarrow> double \<Rightarrow> double" where
  "dsub rnd a b = dadd rnd a (dneg b)"

fun dmul :: "(real \<Rightarrow> real) \<Rightarrow> double \<Rightarrow> double \<Rightarrow> double" where
  "dmul rnd NaN b = NaN"
| "dmul rnd a NaN = NaN"
| "dmul rnd (Finite x) (Finite y) = fl rnd (x * y)"
| "dmul rnd (Finite x) b = (if x = 0 then NaN else if 0 < x then b else dneg b)"
| "dmul rnd a (Finite y) = (if y = 0 then NaN else if 0 < y then a else dneg a)"
| "dmul rnd PosInf b = b"
| "dmul rnd NegInf b = dneg b"

fun ddiv :: "(real \<Rightarrow> real) \<Rightarrow> double \<Rightarrow> double \<Rightarrow> double" where
  "ddiv rnd NaN b = NaN"
| "ddiv rnd a NaN = NaN"
| "ddiv rnd (Finite x) (Finite y) =
     (if y = 0 then (if x = 0 then NaN else if 0 < x then PosInf else NegInf)
      else fl rnd (x / y))"
| "ddiv rnd (Finite x) b = Finite 0"
| "ddiv rnd a (Finite y) = (if 0 \<le> y then a else dneg a)"
| "ddiv rnd a b = NaN"

fun dabs :: "double \<Rightarrow> double" where
  "dabs (Finite x) = Finite \<bar>x\<bar>"
| "dabs PosInf = PosInf"
| "dabs NegInf = PosInf"
| "dabs NaN = NaN"

text \<open>The comparisons \<open><\<close> and \<open><=\<close> of \<open>double\<close>: false when an operand is not a number.\<close>

fun dless :: "double \<Rightarrow> double \<Rightarrow> bool" where
  "dless NaN b = False"
| "dless a NaN = False"
| "dless (Finite x) (Finite y) = (x < y)"
| "dless (Finite x) PosInf = True"
| "dless (Finite x) NegInf = False"
| "dless PosInf b = False"
| "dless NegInf NegInf = False"
| "dless NegInf b = True"

fun dle :: "double \<Rightarrow> double \<Rightarrow> bool" where
  "dle NaN b = False"
| "dle a NaN = False"
| "dle (Finite x) (Finite y) = (x \<le> y)"
| "dle (Finite x) PosInf = True"
| "dle (Finite x) NegInf = False"
| "dle PosInf PosInf = True"
| "dle PosInf b = False"
| "dle NegInf b = True"

text \<open>
  The operations of Eigen and of the kernel that the energy uses, in \<open>double\<close>. The
  order in which Eigen adds the three products of a row with a vector, and the three
  squares of a norm, is Eigen's own; they are added from left to right here. The sign of
  the energy and the values of the examples are the same for either order.
\<close>

type_synonym dvec3 = "double \<times> double \<times> double"

definition dsub_to_col :: "(real \<Rightarrow> real) \<Rightarrow> vec3 \<Rightarrow> vec3 \<Rightarrow> dvec3" where
  "dsub_to_col rnd p1 p2 =
     (case p1 of (x1, y1, z1) \<Rightarrow> case p2 of (x2, y2, z2) \<Rightarrow>
        (dsub rnd (Finite x1) (Finite x2), dsub rnd (Finite y1) (Finite y2),
         dsub rnd (Finite z1) (Finite z2)))"

definition ddot :: "(real \<Rightarrow> real) \<Rightarrow> vec3 \<Rightarrow> dvec3 \<Rightarrow> double" where
  "ddot rnd a b =
     (case a of (a1, a2, a3) \<Rightarrow> case b of (b1, b2, b3) \<Rightarrow>
        dadd rnd (dadd rnd (dmul rnd (Finite a1) b1) (dmul rnd (Finite a2) b2))
          (dmul rnd (Finite a3) b3))"

definition dmat_vec :: "(real \<Rightarrow> real) \<Rightarrow> mat3 \<Rightarrow> dvec3 \<Rightarrow> dvec3" where
  "dmat_vec rnd A x = (case A of (r1, r2, r3) \<Rightarrow> (ddot rnd r1 x, ddot rnd r2 x, ddot rnd r3 x))"

definition dvec_sub :: "(real \<Rightarrow> real) \<Rightarrow> dvec3 \<Rightarrow> dvec3 \<Rightarrow> dvec3" where
  "dvec_sub rnd a b =
     (case a of (a1, a2, a3) \<Rightarrow> case b of (b1, b2, b3) \<Rightarrow>
        (dsub rnd a1 b1, dsub rnd a2 b2, dsub rnd a3 b3))"

definition dsquaredNorm :: "(real \<Rightarrow> real) \<Rightarrow> dvec3 \<Rightarrow> double" where
  "dsquaredNorm rnd a =
     (case a of (a1, a2, a3) \<Rightarrow>
        dadd rnd (dadd rnd (dmul rnd a1 a1) (dmul rnd a2 a2)) (dmul rnd a3 a3))"

subsection \<open>The halfedge graph\<close>

text \<open>
  The capabilities of the \<open>Polyhedron\<close> the class consumes: the connectivity, which the
  class never changes, and the stored position \<open>point\<close> of every vertex, which it writes.
\<close>

record polyhedron =
  num_vertices :: nat
  num_edges :: nat
  in_edges :: "nat \<Rightarrow> nat list"
  out_edges :: "nat \<Rightarrow> nat list"
  source :: "nat \<Rightarrow> nat"
  target :: "nat \<Rightarrow> nat"
  opposite_edge :: "nat \<Rightarrow> nat"
  next_edge :: "nat \<Rightarrow> nat"
  edge_is_border :: "nat \<Rightarrow> bool"
  point :: "vec3 list"

datatype Deformation_type = ORIGINAL_ARAP | SPOKES_AND_RIMS

text \<open>
  A sparse matrix under construction: its dimension and the calls
  \<open>set_coef(i, j, val, true)\<close> in the order they are made.
\<close>

type_synonym matrix = "nat \<times> (nat \<times> nat \<times> real) list"

text \<open>
  The template parameters and external collaborators. \<open>'sv\<close> is the state of the
  sparse solver; \<open>pre_factor\<close> returns the success flag and the solver's new state.
  \<open>rounding\<close> is the rounding of the machine's \<open>double\<close> arithmetic.
\<close>

record 'sv collaborators =
  deformation_type :: Deformation_type
  weight_calculator :: "nat \<Rightarrow> polyhedron \<Rightarrow> real"
  solver_init :: 'sv
  pre_factor :: "'sv \<Rightarrow> matrix \<Rightarrow> bool \<times> 'sv"
  linear_solver :: "'sv \<Rightarrow> real list \<Rightarrow> real list"
  svd :: "mat3 \<Rightarrow> mat3 \<times> mat3"
  rounding :: "real \<Rightarrow> real"

subsection \<open>Data members\<close>

text \<open>
  A \<open>Handle_group\<close> is an iterator into \<open>handle_group_list\<close>; it stays valid until its
  group is erased. It is modelled as a key of an association list that keeps the order
  of the \<open>std::list\<close>. Dereferencing an erased group is undefined behaviour in the source.
\<close>

record 'sv deform_mesh =
  polyhedron :: polyhedron
  original :: "vec3 list"
  solution :: "vec3 list"
  roi :: "nat list"
  ros :: "nat list"
  ros_id_map :: "nat list"
  is_roi_map :: "bool list"
  is_hdl_map :: "bool list"
  edge_weight :: "real list"
  rot_mtr :: "mat3 list"
  m_solver :: 'sv
  iterations :: nat
  tolerance :: real
  need_preprocess :: bool
  handle_group_list :: "(nat \<times> nat list) list"

datatype error = Assertion_failed

definition not_assigned :: nat where
  "not_assigned = 2 ^ 64 - 1"

definition is_roi :: "'sv deform_mesh \<Rightarrow> nat \<Rightarrow> bool" where
  "is_roi s vd = is_roi_map s ! vd"

definition is_handle :: "'sv deform_mesh \<Rightarrow> nat \<Rightarrow> bool" where
  "is_handle s vd = is_hdl_map s ! vd"

definition ros_id :: "'sv deform_mesh \<Rightarrow> nat \<Rightarrow> nat" where
  "ros_id s vd = ros_id_map s ! vd"

text \<open>The members of a group of handles (\<open>handles(handle_group)\<close>).\<close>

definition handles :: "'sv deform_mesh \<Rightarrow> nat \<Rightarrow> nat list" where
  "handles s g = (case map_of (handle_group_list s) g of Some hs \<Rightarrow> hs | None \<Rightarrow> [])"

subsection \<open>Construction and reset\<close>

definition Deform_mesh ::
  "'sv collaborators \<Rightarrow> polyhedron \<Rightarrow> nat \<Rightarrow> real \<Rightarrow> 'sv deform_mesh" where
  "Deform_mesh env P its tol =
     \<lparr> polyhedron = P,
       original = [],
       solution = [],
       roi = [],
       ros = [],
       ros_id_map = replicate (num_vertices P) not_assigned,
       is_roi_map = replicate (num_vertices P) False,
       is_hdl_map = replicate (num_vertices P) False,
       edge_weight = map (\<lambda>e. weight_calculator env e P) [0..<num_edges P],
       rot_mtr = [],
       m_solver = solver_init env,
       iterations = its,
       tolerance = tol,
       need_preprocess = True,
       handle_group_list = [] \<rparr>"

definition reset :: "'sv deform_mesh \<Rightarrow> 'sv deform_mesh" where
  "reset s =
     s\<lparr> need_preprocess := True,
        roi := [],
        handle_group_list := [],
        is_roi_map := replicate (num_vertices (polyhedron s)) False,
        is_hdl_map := replicate (num_vertices (polyhedron s)) False \<rparr>"

subsection \<open>The registry: region of interest and groups of handles\<close>

text \<open>A key no live group has: the iterator of the group pushed at the back.\<close>

definition fresh_group :: "(nat \<times> nat list) list \<Rightarrow> nat" where
  "fresh_group gl = Suc (fold max (map fst gl) 0)"

definition create_handle_group :: "'sv deform_mesh \<Rightarrow> nat \<times> 'sv deform_mesh" where
  "create_handle_group s =
     (let g = fresh_group (handle_group_list s)
      in (g, s\<lparr> handle_group_list := handle_group_list s @ [(g, [])] \<rparr>))"

definition insert_roi :: "nat \<Rightarrow> 'sv deform_mesh \<Rightarrow> bool \<times> 'sv deform_mesh" where
  "insert_roi vd s =
     (if is_roi s vd then (False, s)
      else (True, s\<lparr> need_preprocess := True,
                     is_roi_map := (is_roi_map s)[vd := True],
                     roi := roi s @ [vd] \<rparr>))"

text \<open>\<open>handle_group->push_back(vd)\<close>.\<close>

definition group_push_back :: "nat \<Rightarrow> nat \<Rightarrow> (nat \<times> nat list) list \<Rightarrow> (nat \<times> nat list) list" where
  "group_push_back g vd gl = map (\<lambda>(k, hs). if k = g then (k, hs @ [vd]) else (k, hs)) gl"

definition insert_handle :: "nat \<Rightarrow> nat \<Rightarrow> 'sv deform_mesh \<Rightarrow> bool \<times> 'sv deform_mesh" where
  "insert_handle g vd s =
     (if is_handle s vd then (False, s)
      else
        let s1 = s\<lparr> need_preprocess := True \<rparr>;
            s2 = snd (insert_roi vd s1);
            s3 = s2\<lparr> is_hdl_map := (is_hdl_map s2)[vd := True] \<rparr>
        in (True, s3\<lparr> handle_group_list := group_push_back g vd (handle_group_list s3) \<rparr>))"

definition insert_handle_range :: "nat \<Rightarrow> nat list \<Rightarrow> 'sv deform_mesh \<Rightarrow> 'sv deform_mesh" where
  "insert_handle_range g vds s = fold (\<lambda>vd s'. snd (insert_handle g vd s')) vds s"

definition insert_roi_range :: "nat list \<Rightarrow> 'sv deform_mesh \<Rightarrow> 'sv deform_mesh" where
  "insert_roi_range vds s = fold (\<lambda>vd s'. snd (insert_roi vd s')) vds s"

text \<open>\<open>erase_handle(Handle_group)\<close>: the whole group is erased.\<close>

definition erase_handle_group :: "nat \<Rightarrow> 'sv deform_mesh \<Rightarrow> 'sv deform_mesh" where
  "erase_handle_group g s =
     (let s1 = s\<lparr> need_preprocess := True \<rparr>;
          s2 = fold (\<lambda>vd s'. s'\<lparr> is_hdl_map := (is_hdl_map s')[vd := False] \<rparr>) (handles s1 g) s1
      in s2\<lparr> handle_group_list := filter (\<lambda>(k, hs). k \<noteq> g) (handle_group_list s2) \<rparr>)"

text \<open>\<open>handle_group->erase(it)\<close> for the first occurrence \<open>it\<close> that \<open>std::find\<close> returns.\<close>

definition group_erase :: "nat \<Rightarrow> nat \<Rightarrow> (nat \<times> nat list) list \<Rightarrow> (nat \<times> nat list) list" where
  "group_erase g vd gl = map (\<lambda>(k, hs). if k = g then (k, remove1 vd hs) else (k, hs)) gl"

text \<open>\<open>erase_handle(Handle_group, vertex_descriptor)\<close>.\<close>

definition erase_handle :: "nat \<Rightarrow> nat \<Rightarrow> 'sv deform_mesh \<Rightarrow> bool \<times> 'sv deform_mesh" where
  "erase_handle g vd s =
     (if \<not> is_handle s vd then (False, s)
      else if vd \<in> set (handles s g)
      then (True, s\<lparr> is_hdl_map := (is_hdl_map s)[vd := False],
                     handle_group_list := group_erase g vd (handle_group_list s),
                     need_preprocess := True \<rparr>)
      else (False, s))"

text \<open>
  \<open>erase_handle(vertex_descriptor)\<close>: the groups are searched in order; when no group
  holds the vertex, \<open>CGAL_assertion(false)\<close> is reached.
\<close>

fun erase_handle_loop :: "nat list \<Rightarrow> nat \<Rightarrow> 'sv deform_mesh \<Rightarrow> error + bool \<times> 'sv deform_mesh" where
  "erase_handle_loop [] vd s = Inl Assertion_failed"
| "erase_handle_loop (g # gs) vd s =
     (case erase_handle g vd s of
        (True, s') \<Rightarrow> Inr (True, s')
      | (False, s') \<Rightarrow> erase_handle_loop gs vd s')"

definition erase_handle_search :: "nat \<Rightarrow> 'sv deform_mesh \<Rightarrow> error + bool \<times> 'sv deform_mesh" where
  "erase_handle_search vd s =
     (if \<not> is_handle s vd then Inr (False, s)
      else erase_handle_loop (map fst (handle_group_list s)) vd s)"

definition erase_roi :: "nat \<Rightarrow> 'sv deform_mesh \<Rightarrow> error + bool \<times> 'sv deform_mesh" where
  "erase_roi vd s =
     (if \<not> is_roi s vd then Inr (False, s)
      else
        case erase_handle_search vd s of
          Inl e \<Rightarrow> Inl e
        | Inr (b, s1) \<Rightarrow>
            if vd \<in> set (roi s1)
            then Inr (True, s1\<lparr> is_roi_map := (is_roi_map s1)[vd := False],
                                roi := remove1 vd (roi s1),
                                need_preprocess := True \<rparr>)
            else Inl Assertion_failed)"

subsection \<open>The region of solution\<close>

text \<open>
  \<open>assign_ros_id_to_one_ring(vd, next_id, push_vector)\<close>: the loop state is the ros-id
  map, \<open>next_id\<close> and \<open>push_vector\<close>.
\<close>

definition assign_ros_id_to_one_ring ::
  "polyhedron \<Rightarrow> nat \<Rightarrow> nat list \<times> nat \<times> nat list \<Rightarrow> nat list \<times> nat \<times> nat list" where
  "assign_ros_id_to_one_ring P vd st =
     fold (\<lambda>e (idm, next_id, push_vector).
             let vt = source P e
             in if idm ! vt = not_assigned
                then (idm[vt := next_id], Suc next_id, push_vector @ [vt])
                else (idm, next_id, push_vector))
          (in_edges P vd) st"

text \<open>\<open>std::vector::resize\<close>; \<open>d\<close> stands for a default-constructed element.\<close>

definition resize :: "nat \<Rightarrow> 'a \<Rightarrow> 'a list \<Rightarrow> 'a list" where
  "resize n d xs = take n xs @ replicate (n - length xs) d"

text \<open>
  The first loop of \<open>region_of_solution\<close>: every vertex of the previous region of
  solution that is not in the region of interest gets its saved original position back.
\<close>

definition revert_non_roi :: "'sv deform_mesh \<Rightarrow> polyhedron" where
  "revert_non_roi s =
     fold (\<lambda>vd P. if \<not> is_roi s vd
                   then P\<lparr> point := (point P)[vd := original s ! (ros_id_map s ! vd)] \<rparr>
                   else P)
          (ros s) (polyhedron s)"

text \<open>\<open>for(i = 0; i < roi.size(); i++) ros_id(roi[i]) = i\<close>, from index \<open>i\<close> on.\<close>

fun assign_roi_ids :: "nat list \<Rightarrow> nat \<Rightarrow> nat list \<Rightarrow> nat list" where
  "assign_roi_ids [] i idm = idm"
| "assign_roi_ids (vd # vds) i idm = assign_roi_ids vds (Suc i) (idm[vd := i])"

text \<open>
  The id assignment of \<open>region_of_solution\<close>: the new \<open>ros_id_map\<close>, the new \<open>ros\<close> and the
  local vector \<open>outside_ros\<close>.
\<close>

definition assign_ros_ids :: "'sv deform_mesh \<Rightarrow> nat list \<times> nat list \<times> nat list" where
  "assign_ros_ids s =
     (let P = polyhedron s;
          ros0 = roi s;
          idm0 = replicate (num_vertices P) not_assigned;
          idm1 = assign_roi_ids (roi s) 0 idm0;
          next_ros_index = length (roi s);
          (idm2, next2, ros1) =
             fold (assign_ros_id_to_one_ring P) (roi s) (idm1, next_ros_index, ros0);
          (idm3, next3, outside_ros) =
             fold (assign_ros_id_to_one_ring P) (drop (length (roi s)) ros1) (idm2, next2, [])
      in (idm3, ros1, outside_ros))"

definition region_of_solution :: "'sv deform_mesh \<Rightarrow> 'sv deform_mesh" where
  "region_of_solution s =
     (let old_ros_id_map = ros_id_map s;
          old_rot_mtr = rot_mtr s;
          old_solution = solution s;
          old_original = original s;
          P = revert_non_roi s;
          (idm, ros', outside_ros) = assign_ros_ids s;
          rot0 = resize (length ros') mat_zero (rot_mtr s);
          rot1 = fold (\<lambda>vd rm.
                    let v_ros_id = idm ! vd
                    in if old_ros_id_map ! vd \<noteq> not_assigned
                          \<and> old_ros_id_map ! vd < length old_rot_mtr
                       then rm[v_ros_id := old_rot_mtr ! (old_ros_id_map ! vd)]
                       else rm[v_ros_id := mat_identity])
                  ros' rot0;
          sol0 = resize (length ros' + length outside_ros) (0, 0, 0) (solution s);
          orig0 = resize (length ros' + length outside_ros) (0, 0, 0) (original s);
          (orig1, sol1) =
             fold (\<lambda>vd (orig, sol).
                    let v_ros_id = idm ! vd
                    in if is_roi s vd \<and> old_ros_id_map ! vd \<noteq> not_assigned
                       then (orig[v_ros_id := old_original ! (old_ros_id_map ! vd)],
                             sol[v_ros_id := old_solution ! (old_ros_id_map ! vd)])
                       else (orig[v_ros_id := point P ! vd], sol[v_ros_id := point P ! vd]))
                  ros' (orig0, sol0);
          (orig2, sol2) =
             fold (\<lambda>vd (orig, sol).
                    let v_ros_id = idm ! vd
                    in (orig[v_ros_id := point P ! vd], sol[v_ros_id := point P ! vd]))
                  outside_ros (orig1, sol1)
      in s\<lparr> polyhedron := P,
            ros := ros',
            ros_id_map := idm,
            rot_mtr := rot1,
            solution := sol2,
            original := orig2 \<rparr>)"

subsection \<open>The linear system\<close>

definition assemble_laplacian_arap :: "'sv deform_mesh \<Rightarrow> matrix" where
  "assemble_laplacian_arap s =
     (let P = polyhedron s
      in (length (ros s),
          fold (\<lambda>vi A.
                 let vi_id = ros_id s vi
                 in if is_roi s vi \<and> \<not> is_handle s vi
                    then
                      let (A', diagonal) =
                            fold (\<lambda>e (A1, diag).
                                   let vj = source P e;
                                       wij = edge_weight s ! e;
                                       wji = edge_weight s ! opposite_edge P e;
                                       total_weight = wij + wji
                                   in (A1 @ [(vi_id, ros_id s vj, - total_weight)],
                                       diag + total_weight))
                                 (in_edges P vi) (A, 0)
                      in A' @ [(vi_id, vi_id, diagonal)]
                    else A @ [(vi_id, vi_id, 1)])
               (ros s) []))"

definition assemble_laplacian_spokes_and_rims :: "'sv deform_mesh \<Rightarrow> matrix" where
  "assemble_laplacian_spokes_and_rims s =
     (let P = polyhedron s
      in (length (ros s),
          fold (\<lambda>vi A.
                 let vi_id = ros_id s vi
                 in if is_roi s vi \<and> \<not> is_handle s vi
                    then
                      let (A', diagonal) =
                            fold (\<lambda>e (A1, diag).
                                   let w1 = (if \<not> edge_is_border P e then edge_weight s ! e else 0);
                                       opp = opposite_edge P e;
                                       w2 = (if \<not> edge_is_border P opp then edge_weight s ! opp else 0);
                                       total_weight = 0 + w1 + w2;
                                       vj = target P e
                                   in (A1 @ [(vi_id, ros_id s vj, - total_weight)],
                                       diag + total_weight))
                                 (out_edges P vi) (A, 0)
                      in A' @ [(vi_id, vi_id, diagonal)]
                    else A @ [(vi_id, vi_id, 1)])
               (ros s) []))"

definition assemble_laplacian :: "'sv collaborators \<Rightarrow> 'sv deform_mesh \<Rightarrow> matrix" where
  "assemble_laplacian env s =
     (if deformation_type env = SPOKES_AND_RIMS
      then assemble_laplacian_spokes_and_rims s
      else assemble_laplacian_arap s)"

definition preprocess :: "'sv collaborators \<Rightarrow> 'sv deform_mesh \<Rightarrow> bool \<times> 'sv deform_mesh" where
  "preprocess env s =
     (if \<not> need_preprocess s then (True, s)
      else
        let s1 = s\<lparr> need_preprocess := False \<rparr>;
            s2 = region_of_solution s1;
            A = assemble_laplacian env s2;
            (ok, sv) = pre_factor env (m_solver s2) A
        in (ok, s2\<lparr> m_solver := sv \<rparr>))"

text \<open>\<open>if(need_preprocess) { preprocess(); }\<close>, the result being dropped.\<close>

definition preprocess_if_needed :: "'sv collaborators \<Rightarrow> 'sv deform_mesh \<Rightarrow> 'sv deform_mesh" where
  "preprocess_if_needed env s = (if need_preprocess s then snd (preprocess env s) else s)"

subsection \<open>Target positions of the handles\<close>

definition translate :: "'sv collaborators \<Rightarrow> nat \<Rightarrow> vec3 \<Rightarrow> 'sv deform_mesh \<Rightarrow> 'sv deform_mesh" where
  "translate env g translation s =
     (let s1 = preprocess_if_needed env s
      in s1\<lparr> solution :=
               fold (\<lambda>vd sol. let v_id = ros_id s1 vd
                               in sol[v_id := vec_add (original s1 ! v_id) translation])
                    (handles s1 g) (solution s1) \<rparr>)"

text \<open>
  \<open>rotate\<close>; \<open>quat\<close> is the action \<open>quat * v\<close> of the quaternion on a vector.
\<close>

definition rotate_handles ::
  "'sv collaborators \<Rightarrow> nat \<Rightarrow> vec3 \<Rightarrow> (vec3 \<Rightarrow> vec3) \<Rightarrow> vec3 \<Rightarrow> 'sv deform_mesh \<Rightarrow> 'sv deform_mesh" where
  "rotate_handles env g rotation_center quat translation s =
     (let s1 = preprocess_if_needed env s
      in s1\<lparr> solution :=
               fold (\<lambda>vd sol.
                      let v_id = ros_id s1 vd;
                          p = sub_to_col (original s1 ! v_id) rotation_center;
                          v = quat p;
                          p1 = vec_add v rotation_center;
                          p2 = vec_add p1 translation
                      in sol[v_id := p2])
                    (handles s1 g) (solution s1) \<rparr>)"

definition assign :: "'sv collaborators \<Rightarrow> nat \<Rightarrow> vec3 \<Rightarrow> 'sv deform_mesh \<Rightarrow> 'sv deform_mesh" where
  "assign env vd target_position s =
     (let s1 = preprocess_if_needed env s
      in if \<not> is_handle s1 vd then s1
         else s1\<lparr> solution := (solution s1)[ros_id s1 vd := target_position] \<rparr>)"

subsection \<open>Loops that may not return\<close>

text \<open>
  The loop \<open>do { ... } while((edge_around_facet = next_edge(edge_around_facet)) != *e)\<close>
  walks around the facet of \<open>*e\<close> and returns only when \<open>next_edge\<close> leads back to \<open>*e\<close>.
  The first argument bounds the number of rounds; \<open>None\<close> stands for a loop that does
  not return. The callers pass \<open>num_edges\<close>: a walk that comes back to its first edge
  does so before it repeats an edge, hence within \<open>num_edges\<close> rounds.
\<close>

fun facet_loop ::
  "nat \<Rightarrow> polyhedron \<Rightarrow> (nat \<Rightarrow> 'a \<Rightarrow> 'a) \<Rightarrow> nat \<Rightarrow> nat \<Rightarrow> 'a \<Rightarrow> 'a option" where
  "facet_loop 0 P body e0 edge_around_facet acc = None"
| "facet_loop (Suc k) P body e0 edge_around_facet acc =
     (let acc' = body edge_around_facet acc;
          e' = next_edge P edge_around_facet
      in if e' \<noteq> e0 then facet_loop k P body e0 e' acc' else Some acc')"

text \<open>A \<open>for\<close> loop over a range whose body may not return.\<close>

fun fold_option :: "('a \<Rightarrow> 'b \<Rightarrow> 'b option) \<Rightarrow> 'a list \<Rightarrow> 'b \<Rightarrow> 'b option" where
  "fold_option f [] acc = Some acc"
| "fold_option f (x # xs) acc =
     (case f x acc of None \<Rightarrow> None | Some acc' \<Rightarrow> fold_option f xs acc')"

subsection \<open>The energy\<close>

definition energy_arap :: "(real \<Rightarrow> real) \<Rightarrow> 'sv deform_mesh \<Rightarrow> double" where
  "energy_arap rnd s =
     (let P = polyhedron s
      in fold (\<lambda>vi sum_of_energy.
                let vi_id = ros_id s vi
                in fold (\<lambda>e sum_of_energy.
                          let vj = source P e;
                              vj_id = ros_id s vj;
                              pij = dsub_to_col rnd (original s ! vi_id) (original s ! vj_id);
                              qij = dsub_to_col rnd (solution s ! vi_id) (solution s ! vj_id);
                              wij = edge_weight s ! e
                          in dadd rnd sum_of_energy
                               (dmul rnd (Finite wij)
                                  (dsquaredNorm rnd
                                     (dvec_sub rnd qij (dmat_vec rnd (rot_mtr s ! vi_id) pij)))))
                        (in_edges P vi) sum_of_energy)
              (ros s) (Finite 0))"

definition energy_spokes_and_rims :: "(real \<Rightarrow> real) \<Rightarrow> 'sv deform_mesh \<Rightarrow> double option" where
  "energy_spokes_and_rims rnd s =
     (let P = polyhedron s
      in fold_option
           (\<lambda>vi sum_of_energy.
              let vi_id = ros_id s vi
              in fold_option
                   (\<lambda>e sum_of_energy.
                      if edge_is_border P e then Some sum_of_energy
                      else facet_loop (num_edges P) P
                             (\<lambda>edge_around_facet sum_of_energy.
                                let v1 = target P edge_around_facet;
                                    v2 = source P edge_around_facet;
                                    v1_id = ros_id s v1;
                                    v2_id = ros_id s v2;
                                    p12 = dsub_to_col rnd (original s ! v1_id) (original s ! v2_id);
                                    q12 = dsub_to_col rnd (solution s ! v1_id) (solution s ! v2_id);
                                    w12 = edge_weight s ! edge_around_facet
                                in dadd rnd sum_of_energy
                                     (dmul rnd (Finite w12)
                                        (dsquaredNorm rnd
                                           (dvec_sub rnd q12
                                              (dmat_vec rnd (rot_mtr s ! vi_id) p12)))))
                             e e sum_of_energy)
                   (out_edges P vi) sum_of_energy)
           (ros s) (Finite 0))"

definition energy :: "'sv collaborators \<Rightarrow> 'sv deform_mesh \<Rightarrow> double option" where
  "energy env s =
     (if deformation_type env = SPOKES_AND_RIMS
      then energy_spokes_and_rims (rounding env) s
      else Some (energy_arap (rounding env) s))"

subsection \<open>The local step\<close>

text \<open>
  The rotation extracted from the covariance matrix: \<open>v * u.transpose()\<close>, and with the
  third column of \<open>u\<close> negated when the determinant is negative.
\<close>

definition extract_rotation :: "'sv collaborators \<Rightarrow> mat3 \<Rightarrow> mat3" where
  "extract_rotation env cov =
     (let (u, v) = svd env cov;
          r = mat_mul v (mat_transpose u)
      in if determinant r < 0
         then mat_mul v (mat_transpose (negate_col2 u))
         else r)"

definition optimal_rotations_svd_arap :: "'sv collaborators \<Rightarrow> 'sv deform_mesh \<Rightarrow> 'sv deform_mesh" where
  "optimal_rotations_svd_arap env s =
     (let P = polyhedron s
      in s\<lparr> rot_mtr :=
              fold (\<lambda>vi rm.
                     let vi_id = ros_id s vi;
                         cov = fold (\<lambda>e cov.
                                      let vj = source P e;
                                          vj_id = ros_id s vj;
                                          pij = sub_to_col (original s ! vi_id) (original s ! vj_id);
                                          qij = sub_to_row (solution s ! vi_id) (solution s ! vj_id);
                                          wij = edge_weight s ! e
                                      in mat_add cov (mat_scale wij (outer pij qij)))
                                    (in_edges P vi) mat_zero
                     in rm[vi_id := extract_rotation env cov])
                   (ros s) (rot_mtr s) \<rparr>)"

definition optimal_rotations_svd_spokes_and_rims ::
  "'sv collaborators \<Rightarrow> 'sv deform_mesh \<Rightarrow> 'sv deform_mesh option" where
  "optimal_rotations_svd_spokes_and_rims env s =
     (let P = polyhedron s
      in case fold_option
                (\<lambda>vi rm.
                   let vi_id = ros_id s vi
                   in case fold_option
                             (\<lambda>e cov.
                                if edge_is_border P e then Some cov
                                else facet_loop (num_edges P) P
                                       (\<lambda>edge_around_facet cov.
                                          let v1 = target P edge_around_facet;
                                              v2 = source P edge_around_facet;
                                              v1_id = ros_id s v1;
                                              v2_id = ros_id s v2;
                                              p12 = sub_to_col (original s ! v1_id) (original s ! v2_id);
                                              q12 = sub_to_row (solution s ! v1_id) (solution s ! v2_id);
                                              w12 = edge_weight s ! edge_around_facet
                                          in mat_add cov (mat_scale w12 (outer p12 q12)))
                                       e e cov)
                             (out_edges P vi) mat_zero
                      of None \<Rightarrow> None
                       | Some cov \<Rightarrow> Some (rm[vi_id := extract_rotation env cov]))
                (ros s) (rot_mtr s)
         of None \<Rightarrow> None
          | Some rm \<Rightarrow> Some (s\<lparr> rot_mtr := rm \<rparr>))"

definition optimal_rotations_svd ::
  "'sv collaborators \<Rightarrow> 'sv deform_mesh \<Rightarrow> 'sv deform_mesh option" where
  "optimal_rotations_svd env s =
     (if deformation_type env = SPOKES_AND_RIMS
      then optimal_rotations_svd_spokes_and_rims env s
      else Some (optimal_rotations_svd_arap env s))"

subsection \<open>The global step\<close>

text \<open>
  The right-hand sides \<open>Bx\<close>, \<open>By\<close>, \<open>Bz\<close> are assembled row by row, the three systems are
  solved, and the solved vectors are copied into \<open>solution\<close>. \<open>rhs vi\<close> is the sum a free
  vertex contributes.
\<close>

definition solve_and_copy ::
  "'sv collaborators \<Rightarrow> (nat \<Rightarrow> vec3) \<Rightarrow> 'sv deform_mesh \<Rightarrow> 'sv deform_mesh" where
  "solve_and_copy env rhs s =
     (let B0 = replicate (length (ros s)) 0;
          (Bx, By, Bz) =
             fold (\<lambda>vi (Bx, By, Bz).
                    let vi_id = ros_id s vi
                    in if is_roi s vi \<and> \<not> is_handle s vi
                       then (case rhs vi of (x, y, z) \<Rightarrow>
                               (Bx[vi_id := x], By[vi_id := y], Bz[vi_id := z]))
                       else (case solution s ! vi_id of (x, y, z) \<Rightarrow>
                               (Bx[vi_id := x], By[vi_id := y], Bz[vi_id := z])))
                  (ros s) (B0, B0, B0);
          X = linear_solver env (m_solver s) Bx;
          Y = linear_solver env (m_solver s) By;
          Z = linear_solver env (m_solver s) Bz
      in s\<lparr> solution :=
              fold (\<lambda>vi sol. let v_id = ros_id s vi in sol[v_id := (X ! v_id, Y ! v_id, Z ! v_id)])
                   (ros s) (solution s) \<rparr>)"

definition update_solution_arap :: "'sv collaborators \<Rightarrow> 'sv deform_mesh \<Rightarrow> 'sv deform_mesh" where
  "update_solution_arap env s =
     (let P = polyhedron s
      in solve_and_copy env
           (\<lambda>vi. let vi_id = ros_id s vi
                 in fold (\<lambda>e xyz.
                           let vj = source P e;
                               vj_id = ros_id s vj;
                               pij = sub_to_col (original s ! vi_id) (original s ! vj_id);
                               wij = edge_weight s ! e;
                               wji = edge_weight s ! opposite_edge P e
                           in vec_add xyz
                                (mat_vec (mat_add (mat_scale wij (rot_mtr s ! vi_id))
                                                  (mat_scale wji (rot_mtr s ! vj_id))) pij))
                         (in_edges P vi) (0, 0, 0))
           s)"

definition update_solution_spokes_and_rims ::
  "'sv collaborators \<Rightarrow> 'sv deform_mesh \<Rightarrow> 'sv deform_mesh" where
  "update_solution_spokes_and_rims env s =
     (let P = polyhedron s
      in solve_and_copy env
           (\<lambda>vi. let vi_id = ros_id s vi
                 in fold (\<lambda>e xyz.
                           let vj = target P e;
                               vj_id = ros_id s vj;
                               pij = sub_to_col (original s ! vi_id) (original s ! vj_id);
                               xyz1 =
                                 (if \<not> edge_is_border P e
                                  then
                                    let vn = target P (next_edge P e);
                                        wji = edge_weight s ! e / 3
                                    in vec_add xyz
                                         (mat_vec (mat_scale wji
                                            (mat_add (mat_add (rot_mtr s ! vi_id) (rot_mtr s ! vj_id))
                                                     (rot_mtr s ! ros_id s vn))) pij)
                                  else xyz);
                               opp = opposite_edge P e
                           in if \<not> edge_is_border P opp
                              then
                                let vm = target P (next_edge P opp);
                                    wij = edge_weight s ! opp / 3
                                in vec_add xyz1
                                     (mat_vec (mat_scale wij
                                        (mat_add (mat_add (rot_mtr s ! vi_id) (rot_mtr s ! vj_id))
                                                 (rot_mtr s ! ros_id s vm))) pij)
                              else xyz1)
                         (out_edges P vi) (0, 0, 0))
           s)"

definition update_solution :: "'sv collaborators \<Rightarrow> 'sv deform_mesh \<Rightarrow> 'sv deform_mesh" where
  "update_solution env s =
     (if deformation_type env = SPOKES_AND_RIMS
      then update_solution_spokes_and_rims env s
      else update_solution_arap env s)"

subsection \<open>Deformation\<close>

definition assign_solution :: "'sv deform_mesh \<Rightarrow> 'sv deform_mesh" where
  "assign_solution s =
     s\<lparr> polyhedron :=
          fold (\<lambda>vd P. let v_id = ros_id s vd
                       in if is_roi s vd
                          then P\<lparr> point := (point P)[vd := solution s ! v_id] \<rparr>
                          else P)
               (ros s) (polyhedron s) \<rparr>"

text \<open>\<open>std::abs((energy_last - energy_this) / energy_this) < tolerance\<close>.\<close>

definition energy_dif_below :: "(real \<Rightarrow> real) \<Rightarrow> double \<Rightarrow> double \<Rightarrow> real \<Rightarrow> bool" where
  "energy_dif_below rnd energy_last energy_this tol =
     dless (dabs (ddiv rnd (dsub rnd energy_last energy_this) energy_this)) (Finite tol)"

text \<open>
  The loop of \<open>deform\<close> from iteration \<open>ite\<close> on. \<open>step\<close> is one round of the main steps
  (\<open>update_solution\<close>, then \<open>optimal_rotations_svd\<close>) and \<open>energy_fn\<close> is \<open>energy\<close>; either
  may not return. \<open>ite + 1\<close> does not wrap, as \<open>ite < its\<close>. \<open>CGAL_warning(energy_this >= 0)\<close>
  prints a message and changes nothing.
\<close>

function deform_loop ::
  "(real \<Rightarrow> real) \<Rightarrow> ('s \<Rightarrow> 's option) \<Rightarrow> ('s \<Rightarrow> double option) \<Rightarrow> nat \<Rightarrow> real \<Rightarrow> nat \<Rightarrow> double
     \<Rightarrow> 's \<Rightarrow> 's option" where
  "deform_loop rnd step energy_fn its tol ite energy_this s =
     (if ite < its
      then (case step s of
              None \<Rightarrow> None
            | Some s1 \<Rightarrow>
                if tol > 0 \<and> ite + 1 < its
                then (let energy_last = energy_this
                      in case energy_fn s1 of
                           None \<Rightarrow> None
                         | Some energy_this' \<Rightarrow>
                             if ite \<noteq> 0 \<and> energy_dif_below rnd energy_last energy_this' tol
                             then Some s1
                             else deform_loop rnd step energy_fn its tol (Suc ite) energy_this' s1)
                else deform_loop rnd step energy_fn its tol (Suc ite) energy_this s1)
      else Some s)"
  by pat_completeness auto
termination
  by (relation "measure (\<lambda>(rnd, step, energy_fn, its, tol, ite, energy_this, s). its - ite)") auto

definition main_steps :: "'sv collaborators \<Rightarrow> 'sv deform_mesh \<Rightarrow> 'sv deform_mesh option" where
  "main_steps env s = optimal_rotations_svd env (update_solution env s)"

text \<open>\<open>deform(unsigned int iterations, double tolerance)\<close>.\<close>

definition deform ::
  "'sv collaborators \<Rightarrow> nat \<Rightarrow> real \<Rightarrow> 'sv deform_mesh \<Rightarrow> 'sv deform_mesh option" where
  "deform env its tol s =
     (let s0 = preprocess_if_needed env s
      in case deform_loop (rounding env) (main_steps env) (energy env) its tol 0 (Finite 0) s0 of
           None \<Rightarrow> None
         | Some s1 \<Rightarrow> Some (assign_solution s1))"

text \<open>\<open>deform()\<close> with the stored parameters.\<close>

definition deform_default :: "'sv collaborators \<Rightarrow> 'sv deform_mesh \<Rightarrow> 'sv deform_mesh option" where
  "deform_default env s = deform env (iterations s) (tolerance s) s"

definition set_iterations :: "nat \<Rightarrow> 'sv deform_mesh \<Rightarrow> 'sv deform_mesh" where
  "set_iterations its s = s\<lparr> iterations := its \<rparr>"

definition set_tolerance :: "real \<Rightarrow> 'sv deform_mesh \<Rightarrow> 'sv deform_mesh" where
  "set_tolerance tol s = s\<lparr> tolerance := tol \<rparr>"

subsection \<open>Reachable states\<close>

text \<open>
  The states a caller can bring the object to: the constructor on the mesh \<open>P0\<close>, followed
  by public member functions called with vertices of the mesh and with groups that have
  not been erased. A call that does not return (an assertion, a loop that does not end)
  leads to no state.
\<close>

definition live_group :: "'sv deform_mesh \<Rightarrow> nat \<Rightarrow> bool" where
  "live_group s g = (g \<in> fst ` set (handle_group_list s))"

inductive reachable :: "'sv collaborators \<Rightarrow> polyhedron \<Rightarrow> 'sv deform_mesh \<Rightarrow> bool"
  for env :: "'sv collaborators" and P0 :: polyhedron where
  r_Deform_mesh: "reachable env P0 (Deform_mesh env P0 its tol)"
| r_reset: "reachable env P0 s \<Longrightarrow> reachable env P0 (reset s)"
| r_create_handle_group:
    "reachable env P0 s \<Longrightarrow> reachable env P0 (snd (create_handle_group s))"
| r_insert_handle:
    "reachable env P0 s \<Longrightarrow> live_group s g \<Longrightarrow> vd < num_vertices P0
       \<Longrightarrow> reachable env P0 (snd (insert_handle g vd s))"
| r_insert_handle_range:
    "reachable env P0 s \<Longrightarrow> live_group s g \<Longrightarrow> \<forall>vd \<in> set vds. vd < num_vertices P0
       \<Longrightarrow> reachable env P0 (insert_handle_range g vds s)"
| r_erase_handle_group:
    "reachable env P0 s \<Longrightarrow> live_group s g \<Longrightarrow> reachable env P0 (erase_handle_group g s)"
| r_erase_handle:
    "reachable env P0 s \<Longrightarrow> live_group s g \<Longrightarrow> vd < num_vertices P0
       \<Longrightarrow> reachable env P0 (snd (erase_handle g vd s))"
| r_erase_handle_search:
    "reachable env P0 s \<Longrightarrow> vd < num_vertices P0 \<Longrightarrow> erase_handle_search vd s = Inr (b, s')
       \<Longrightarrow> reachable env P0 s'"
| r_insert_roi:
    "reachable env P0 s \<Longrightarrow> vd < num_vertices P0 \<Longrightarrow> reachable env P0 (snd (insert_roi vd s))"
| r_insert_roi_range:
    "reachable env P0 s \<Longrightarrow> \<forall>vd \<in> set vds. vd < num_vertices P0
       \<Longrightarrow> reachable env P0 (insert_roi_range vds s)"
| r_erase_roi:
    "reachable env P0 s \<Longrightarrow> vd < num_vertices P0 \<Longrightarrow> erase_roi vd s = Inr (b, s')
       \<Longrightarrow> reachable env P0 s'"
| r_preprocess: "reachable env P0 s \<Longrightarrow> reachable env P0 (snd (preprocess env s))"
| r_translate:
    "reachable env P0 s \<Longrightarrow> live_group s g \<Longrightarrow> reachable env P0 (translate env g t s)"
| r_rotate:
    "reachable env P0 s \<Longrightarrow> live_group s g
       \<Longrightarrow> reachable env P0 (rotate_handles env g c quat t s)"
| r_assign:
    "reachable env P0 s \<Longrightarrow> vd < num_vertices P0 \<Longrightarrow> reachable env P0 (assign env vd p s)"
| r_deform:
    "reachable env P0 s \<Longrightarrow> deform env its tol s = Some s' \<Longrightarrow> reachable env P0 s'"
| r_deform_default:
    "reachable env P0 s \<Longrightarrow> deform_default env s = Some s' \<Longrightarrow> reachable env P0 s'"
| r_set_iterations: "reachable env P0 s \<Longrightarrow> reachable env P0 (set_iterations its s)"
| r_set_tolerance: "reachable env P0 s \<Longrightarrow> reachable env P0 (set_tolerance tol s)"

subsection \<open>Example inputs\<close>

text \<open>
  A single triangle with vertices 0, 1, 2. The halfedges 0, 1, 2 run around the facet
  (\<open>0 \<rightarrow> 1 \<rightarrow> 2 \<rightarrow> 0\<close>), the halfedges 3, 4, 5 are their opposites on the border.
\<close>

definition triangle :: polyhedron where
  "triangle =
     \<lparr> num_vertices = 3,
       num_edges = 6,
       in_edges = (\<lambda>v. [[2, 3], [0, 4], [1, 5]] ! v),
       out_edges = (\<lambda>v. [[0, 5], [1, 3], [2, 4]] ! v),
       source = (\<lambda>e. [0, 1, 2, 1, 2, 0] ! e),
       target = (\<lambda>e. [1, 2, 0, 0, 1, 2] ! e),
       opposite_edge = (\<lambda>e. [3, 4, 5, 0, 1, 2] ! e),
       next_edge = (\<lambda>e. [1, 2, 0, 5, 3, 4] ! e),
       edge_is_border = (\<lambda>e. 3 \<le> e),
       point = [(0, 0, 0), (1, 0, 0), (0, 1, 0)] \<rparr>"

text \<open>
  Collaborators for the examples: uniform weights, a solver whose state counts the calls
  of \<open>pre_factor\<close>, which all report \<open>ok\<close>, and whose \<open>linear_solver\<close> returns the
  right-hand side (as for an identity matrix), and an SVD that returns identity factors.
  The rounding returns its argument: the values that arise in the examples are small
  integers and dyadic fractions, which every rounding to \<open>double\<close> keeps.
\<close>

definition counting_solver :: "bool \<Rightarrow> Deformation_type \<Rightarrow> nat collaborators" where
  "counting_solver ok dt =
     \<lparr> deformation_type = dt,
       weight_calculator = (\<lambda>e P. 1),
       solver_init = 0,
       pre_factor = (\<lambda>sv A. (ok, Suc sv)),
       linear_solver = (\<lambda>sv B. B),
       svd = (\<lambda>M. (mat_identity, mat_identity)),
       rounding = (\<lambda>x. x) \<rparr>"

subsection \<open>Invariants of the registry\<close>

text \<open>All handles, group after group.\<close>

definition all_handles :: "'sv deform_mesh \<Rightarrow> nat list" where
  "all_handles s = concat (map snd (handle_group_list s))"

text \<open>Two meshes that differ at most in the stored positions.\<close>

definition same_connectivity :: "polyhedron \<Rightarrow> polyhedron \<Rightarrow> bool" where
  "same_connectivity P Q \<longleftrightarrow> P\<lparr> point := point Q \<rparr> = Q"

text \<open>
  What \<open>CGAL_assertion(false)\<close> in \<open>erase_handle\<close> and \<open>erase_roi\<close> calls consistency
  "between is_handle_map and handle_group_list" and "between is_roi_map and roi vector",
  together with: every handle is in the region of interest.
\<close>

definition registry_inv :: "polyhedron \<Rightarrow> 'sv deform_mesh \<Rightarrow> bool" where
  "registry_inv P0 s \<longleftrightarrow>
     same_connectivity (polyhedron s) P0
     \<and> length (is_roi_map s) = num_vertices P0
     \<and> length (is_hdl_map s) = num_vertices P0
     \<and> distinct (roi s)
     \<and> (\<forall>v. v \<in> set (roi s) \<longleftrightarrow> v < num_vertices P0 \<and> is_roi s v)
     \<and> distinct (map fst (handle_group_list s))
     \<and> distinct (all_handles s)
     \<and> (\<forall>v. v \<in> set (all_handles s) \<longleftrightarrow> v < num_vertices P0 \<and> is_handle s v)
     \<and> (\<forall>v < num_vertices P0. is_handle s v \<longrightarrow> is_roi s v)"

text \<open>The data the registry owns, and the data the solver owns.\<close>

definition registry_part ::
  "'sv deform_mesh \<Rightarrow> nat list \<times> bool list \<times> bool list \<times> (nat \<times> nat list) list" where
  "registry_part s = (roi s, is_roi_map s, is_hdl_map s, handle_group_list s)"

definition solver_part ::
  "'sv deform_mesh \<Rightarrow>
     polyhedron \<times> vec3 list \<times> vec3 list \<times> nat list \<times> nat list \<times> real list \<times> mat3 list \<times> 'sv" where
  "solver_part s =
     (polyhedron s, original s, solution s, ros s, ros_id_map s, edge_weight s, rot_mtr s, m_solver s)"

text \<open>
  Once the region of solution has been rebuilt, it holds the region of interest.
\<close>

definition roi_in_ros :: "'sv deform_mesh \<Rightarrow> bool" where
  "roi_in_ros s \<longleftrightarrow> (\<not> need_preprocess s \<longrightarrow> set (roi s) \<subseteq> set (ros s))"

text \<open>
  States of the object on the triangle: a group of handles created, vertex 0 inserted in
  it, and \<open>preprocess\<close> called.
\<close>

definition one_group :: "nat deform_mesh" where
  "one_group = snd (create_handle_group (Deform_mesh (counting_solver True ORIGINAL_ARAP) triangle 5 0))"

definition one_handle :: "nat deform_mesh" where
  "one_handle = snd (insert_handle 1 0 one_group)"

definition one_handle_ready :: "nat deform_mesh" where
  "one_handle_ready = snd (preprocess (counting_solver True ORIGINAL_ARAP) one_handle)"

text \<open>
  The triangle with vertex 0 in the region of interest and no handle, before and after
  one iteration of \<open>deform\<close>.
\<close>

definition free_vertex :: "nat deform_mesh" where
  "free_vertex = snd (insert_roi 0 (Deform_mesh (counting_solver True ORIGINAL_ARAP) triangle 5 0))"

definition free_vertex_moved :: "nat deform_mesh" where
  "free_vertex_moved =
     free_vertex
       \<lparr> polyhedron := triangle\<lparr> point := [(- 2, - 2, 0), (1, 0, 0), (0, 1, 0)] \<rparr>,
         original := [(0, 0, 0), (0, 1, 0), (1, 0, 0)],
         solution := [(- 2, - 2, 0), (0, 1, 0), (1, 0, 0)],
         ros := [0, 2, 1],
         ros_id_map := [0, 2, 1],
         rot_mtr := [mat_identity, mat_identity, mat_identity],
         m_solver := 1,
         need_preprocess := False \<rparr>"








subsection \<open>Well-formed meshes\<close>

text \<open>
  The edges around a vertex and the ends of an edge are edges and vertices of the mesh,
  and the number of vertices is a \<open>std::size_t\<close>.
\<close>

definition wf_polyhedron :: "polyhedron \<Rightarrow> bool" where
  "wf_polyhedron P \<longleftrightarrow>
     num_vertices P \<le> not_assigned
     \<and> (\<forall>v < num_vertices P. \<forall>e \<in> set (in_edges P v).
           e < num_edges P \<and> source P e < num_vertices P)
     \<and> (\<forall>v < num_vertices P. \<forall>e \<in> set (out_edges P v).
           e < num_edges P \<and> target P e < num_vertices P)
     \<and> (\<forall>e < num_edges P.
           source P e < num_vertices P \<and> target P e < num_vertices P
           \<and> next_edge P e < num_edges P \<and> opposite_edge P e < num_edges P)"

text \<open>
  The ros-ids \<open>idm\<close> of a mesh of \<open>n\<close> vertices number the vertices of the list \<open>L\<close> in
  the order of the list, and every other vertex has the mark \<open>not_assigned\<close>.
\<close>

definition ids_ok :: "nat \<Rightarrow> nat list \<Rightarrow> nat list \<Rightarrow> bool" where
  "ids_ok n idm L \<longleftrightarrow>
     length idm = n \<and> distinct L \<and> set L \<subseteq> {..<n}
     \<and> (\<forall>i < length L. idm ! (L ! i) = i)
     \<and> (\<forall>v < n. v \<notin> set L \<longrightarrow> idm ! v = not_assigned)"

text \<open>
  Two triangles \<open>(0, 1, 2)\<close> and \<open>(2, 1, 3)\<close> that share the edge between 1 and 2. The
  halfedges 0, 1, 2 and 3, 4, 5 run around the two facets; 6 to 9 are on the border.
\<close>

definition two_triangles :: polyhedron where
  "two_triangles =
     \<lparr> num_vertices = 4,
       num_edges = 10,
       in_edges = (\<lambda>v. [[2, 6], [0, 3, 8], [1, 5, 7], [4, 9]] ! v),
       out_edges = (\<lambda>v. [[0, 7], [1, 4, 6], [2, 3, 9], [5, 8]] ! v),
       source = (\<lambda>e. [0, 1, 2, 2, 1, 3, 1, 0, 3, 2] ! e),
       target = (\<lambda>e. [1, 2, 0, 1, 3, 2, 0, 2, 1, 3] ! e),
       opposite_edge = (\<lambda>e. [6, 3, 7, 1, 8, 9, 0, 2, 4, 5] ! e),
       next_edge = (\<lambda>e. [1, 2, 0, 4, 5, 3, 7, 9, 6, 8] ! e),
       edge_is_border = (\<lambda>e. 6 \<le> e),
       point = [(0, 0, 0), (1, 0, 0), (0, 1, 0), (1, 1, 0)] \<rparr>"

text \<open>
  What the solver relies on in a reachable state: the edge weights are those the
  constructor computed, and \<open>ros\<close> holds vertices of the mesh.
\<close>

definition solver_inv :: "'sv collaborators \<Rightarrow> polyhedron \<Rightarrow> 'sv deform_mesh \<Rightarrow> bool" where
  "solver_inv env P0 s \<longleftrightarrow>
     edge_weight s = map (\<lambda>e. weight_calculator env e P0) [0..<num_edges P0]
     \<and> set (ros s) \<subseteq> {..<num_vertices P0}"

text \<open>The precondition of the constructor: every facet is a triangle.\<close>

definition triangulated :: "polyhedron \<Rightarrow> bool" where
  "triangulated P \<longleftrightarrow>
     (\<forall>e < num_edges P. \<not> edge_is_border P e \<longrightarrow>
        next_edge P (next_edge P (next_edge P e)) = e)"

text \<open>Collaborators whose weight functor returns a negative weight.\<close>

definition negative_weights :: "nat collaborators" where
  "negative_weights = (counting_solver True ORIGINAL_ARAP)\<lparr> weight_calculator := (\<lambda>e P. - 1) \<rparr>"

definition negative_moved :: "nat deform_mesh" where
  "negative_moved =
     (Deform_mesh negative_weights triangle 5 0)
       \<lparr> polyhedron := triangle\<lparr> point := [(2, 2, 0), (1, 0, 0), (0, 1, 0)] \<rparr>,
         roi := [0],
         is_roi_map := [True, False, False],
         original := [(0, 0, 0), (0, 1, 0), (1, 0, 0)],
         solution := [(2, 2, 0), (0, 1, 0), (1, 0, 0)],
         ros := [0, 2, 1],
         ros_id_map := [0, 2, 1],
         rot_mtr := [mat_identity, mat_identity, mat_identity],
         m_solver := 1,
         need_preprocess := False \<rparr>"

text \<open>
  The values of a \<open>double\<close> that are not below zero: the numbers from zero on, the
  positive infinity, and NaN. The comparison \<open>>= 0\<close> holds for all of them but NaN.
\<close>

definition not_below_zero :: "double \<Rightarrow> bool" where
  "not_below_zero d \<longleftrightarrow> d = NaN \<or> dle (Finite 0) d"




text \<open>
  The triangle with two vertices \<open>2 ^ 1023\<close> to either side of the origin: the
  coordinates are finite doubles and their difference is not.
\<close>

definition huge :: real where
  "huge = 2 ^ 1023"

definition wide_triangle :: polyhedron where
  "wide_triangle = triangle\<lparr> point := [(huge, 0, 0), (- huge, 0, 0), (0, 1, 0)] \<rparr>"

definition wide_ready :: "nat deform_mesh" where
  "wide_ready =
     (snd (insert_roi 0 (Deform_mesh (counting_solver True ORIGINAL_ARAP) wide_triangle 5 0)))
       \<lparr> polyhedron := wide_triangle,
         original := [(huge, 0, 0), (0, 1, 0), (- huge, 0, 0)],
         solution := [(huge, 0, 0), (0, 1, 0), (- huge, 0, 0)],
         ros := [0, 2, 1],
         ros_id_map := [0, 2, 1],
         rot_mtr := [mat_identity, mat_identity, mat_identity],
         m_solver := 1,
         need_preprocess := False \<rparr>"

section \<open>Properties\<close>

subsection \<open>Evaluation of the example collaborators\<close>

lemma counting_solver_fields:
  "deformation_type (counting_solver ok dt) = dt"
  "weight_calculator (counting_solver ok dt) = (\<lambda>e P. 1)"
  "solver_init (counting_solver ok dt) = 0"
  "pre_factor (counting_solver ok dt) = (\<lambda>sv A. (ok, Suc sv))"
  "linear_solver (counting_solver ok dt) = (\<lambda>sv B. B)"
  "svd (counting_solver ok dt) = (\<lambda>M. (mat_identity, mat_identity))"
  "rounding (counting_solver ok dt) = (\<lambda>x. x)"
  by (simp_all add: counting_solver_def)

subsection \<open>What \<open>region_of_solution\<close> and \<open>preprocess\<close> leave alone\<close>

lemma region_of_solution_frame:
  "roi (region_of_solution s) = roi s"
  "is_roi_map (region_of_solution s) = is_roi_map s"
  "is_hdl_map (region_of_solution s) = is_hdl_map s"
  "handle_group_list (region_of_solution s) = handle_group_list s"
  "edge_weight (region_of_solution s) = edge_weight s"
  "m_solver (region_of_solution s) = m_solver s"
  "iterations (region_of_solution s) = iterations s"
  "tolerance (region_of_solution s) = tolerance s"
  "need_preprocess (region_of_solution s) = need_preprocess s"
  by (simp_all add: region_of_solution_def Let_def split: prod.splits)

lemma preprocess_clean: "\<not> need_preprocess s \<Longrightarrow> preprocess env s = (True, s)"
  by (simp add: preprocess_def)

lemma preprocess_dirty:
  "need_preprocess s \<Longrightarrow>
   preprocess env s =
     (let s2 = region_of_solution (s\<lparr> need_preprocess := False \<rparr>);
          r = pre_factor env (m_solver s) (assemble_laplacian env s2)
      in (fst r, s2\<lparr> m_solver := snd r \<rparr>))"
  by (simp add: preprocess_def Let_def region_of_solution_frame split: prod.splits)

lemma preprocess_frame:
  "roi (snd (preprocess env s)) = roi s"
  "is_roi_map (snd (preprocess env s)) = is_roi_map s"
  "is_hdl_map (snd (preprocess env s)) = is_hdl_map s"
  "handle_group_list (snd (preprocess env s)) = handle_group_list s"
  "edge_weight (snd (preprocess env s)) = edge_weight s"
  "iterations (snd (preprocess env s)) = iterations s"
  "tolerance (snd (preprocess env s)) = tolerance s"
  "need_preprocess (snd (preprocess env s)) = False"
  by (cases "need_preprocess s";
      simp add: preprocess_clean preprocess_dirty Let_def region_of_solution_frame)+

subsection \<open>Preprocessing and the validity flag\<close>

text \<open>
  Claim C1, as the code has it. A call of \<open>preprocess\<close> that finds the flag set returns
  what \<open>pre_factor\<close> reports for the assembled matrix, so it returns false when the
  factorization fails; it clears the flag before the rebuild, whatever the outcome. A
  second call with no mutation in between changes nothing in the object (the region of
  solution is not rebuilt and the solver is not called), and when the first call
  succeeded the second returns the same value.
\<close>

theorem preprocess_once:
  assumes "need_preprocess s" and "preprocess env s = (ok, s1)"
  shows "ok = fst (pre_factor env (m_solver s)
                 (assemble_laplacian env (region_of_solution (s\<lparr> need_preprocess := False \<rparr>))))
         \<and> \<not> need_preprocess s1
         \<and> snd (preprocess env s1) = s1
         \<and> (ok \<longrightarrow> fst (preprocess env s1) = ok)"
proof -
  have flag: "\<not> need_preprocess s1"
    using preprocess_frame(8) [of env s] assms(2) by simp
  have "ok = fst (pre_factor env (m_solver s)
                 (assemble_laplacian env (region_of_solution (s\<lparr> need_preprocess := False \<rparr>))))"
    using assms by (simp add: preprocess_dirty Let_def)
  with flag show ?thesis
    by (simp add: preprocess_clean)
qed

text \<open>
  On the triangle with vertex 0 in the region of interest and a solver that counts its
  factorizations: after two calls of \<open>preprocess\<close> the solver has factorized once.
\<close>

theorem preprocess_once_witness:
  "need_preprocess (snd (insert_roi 0 (Deform_mesh (counting_solver True ORIGINAL_ARAP) triangle 5 0)))
   \<and> fst (preprocess (counting_solver True ORIGINAL_ARAP)
           (snd (insert_roi 0 (Deform_mesh (counting_solver True ORIGINAL_ARAP) triangle 5 0))))
   \<and> m_solver (snd (preprocess (counting_solver True ORIGINAL_ARAP)
        (snd (preprocess (counting_solver True ORIGINAL_ARAP)
           (snd (insert_roi 0 (Deform_mesh (counting_solver True ORIGINAL_ARAP) triangle 5 0))))))) = 1
   \<and> fst (preprocess (counting_solver True ORIGINAL_ARAP)
        (snd (preprocess (counting_solver True ORIGINAL_ARAP)
           (snd (insert_roi 0 (Deform_mesh (counting_solver True ORIGINAL_ARAP) triangle 5 0))))))"
proof -
  let ?E = "counting_solver True ORIGINAL_ARAP"
  let ?s = "snd (insert_roi 0 (Deform_mesh ?E triangle 5 0))"
  have d: "need_preprocess ?s"
    by (simp add: insert_roi_def Deform_mesh_def is_roi_def triangle_def)
  have f: "fst (preprocess ?E ?s)"
    by (simp add: preprocess_dirty [OF d] Let_def counting_solver_fields)
  then have p: "preprocess ?E ?s = (True, snd (preprocess ?E ?s))"
    by (simp add: prod_eq_iff)
  have m: "m_solver (snd (preprocess ?E ?s)) = 1"
    by (simp add: preprocess_dirty [OF d] Let_def counting_solver_fields)
       (simp add: insert_roi_def Deform_mesh_def is_roi_def triangle_def counting_solver_fields)
  from preprocess_once [OF d p] d f m show ?thesis
    by simp
qed

text \<open>
  Claim C1 as stated fails: with a solver whose factorization fails, the first call
  returns false, the flag is cleared all the same, and the second call returns true.
\<close>

theorem preprocess_failure_counterexample:
  "\<not> fst (preprocess (counting_solver False ORIGINAL_ARAP)
              (Deform_mesh (counting_solver False ORIGINAL_ARAP) triangle 5 0))
   \<and> \<not> need_preprocess (snd (preprocess (counting_solver False ORIGINAL_ARAP)
              (Deform_mesh (counting_solver False ORIGINAL_ARAP) triangle 5 0)))
   \<and> fst (preprocess (counting_solver False ORIGINAL_ARAP)
            (snd (preprocess (counting_solver False ORIGINAL_ARAP)
              (Deform_mesh (counting_solver False ORIGINAL_ARAP) triangle 5 0))))"
proof -
  have d: "need_preprocess (Deform_mesh (counting_solver False ORIGINAL_ARAP) triangle 5 0)"
    by (simp add: Deform_mesh_def)
  have "\<not> fst (preprocess (counting_solver False ORIGINAL_ARAP)
              (Deform_mesh (counting_solver False ORIGINAL_ARAP) triangle 5 0))"
    by (simp add: preprocess_dirty [OF d] Let_def counting_solver_fields)
  then show ?thesis
    by (simp add: preprocess_frame preprocess_clean)
qed

subsection \<open>The registry keeps its invariants\<close>

lemma alist_split:
  assumes "g \<in> fst ` set gl" and "distinct (map fst gl)"
  shows "\<exists>xs hs ys. gl = xs @ (g, hs) # ys \<and> g \<notin> fst ` set xs \<and> g \<notin> fst ` set ys"
proof -
  from assms(1) obtain hs where "(g, hs) \<in> set gl" by auto
  then obtain xs ys where gl: "gl = xs @ (g, hs) # ys"
    by (auto dest: split_list)
  with assms(2) have "g \<notin> fst ` set xs \<and> g \<notin> fst ` set ys" by auto
  with gl show ?thesis by blast
qed

lemma key_in: "(g, b) \<in> set xs \<Longrightarrow> g \<in> fst ` set xs"
  by force

lemma group_push_back_split:
  "g \<notin> fst ` set xs \<Longrightarrow> g \<notin> fst ` set ys \<Longrightarrow>
   group_push_back g vd (xs @ (g, hs) # ys) = xs @ (g, hs @ [vd]) # ys"
  by (auto simp: group_push_back_def intro!: map_idI dest: key_in)

lemma group_erase_split:
  "g \<notin> fst ` set xs \<Longrightarrow> g \<notin> fst ` set ys \<Longrightarrow>
   group_erase g vd (xs @ (g, hs) # ys) = xs @ (g, remove1 vd hs) # ys"
  by (auto simp: group_erase_def intro!: map_idI dest: key_in)

lemma filter_absent_key: "g \<notin> fst ` set zs \<Longrightarrow> filter (\<lambda>(k, hs). k \<noteq> g) zs = zs"
  by (induction zs) auto

lemma group_filter_split:
  "g \<notin> fst ` set xs \<Longrightarrow> g \<notin> fst ` set ys \<Longrightarrow>
   filter (\<lambda>(k, hs). k \<noteq> g) (xs @ (g, hs) # ys) = xs @ ys"
  by (simp add: filter_absent_key)

lemma map_of_split:
  "g \<notin> fst ` set xs \<Longrightarrow> map_of (xs @ (g, hs) # ys) g = Some hs"
  by (simp add: map_add_def map_of_eq_None_iff [THEN iffD2])

lemma handles_split:
  "handle_group_list s = xs @ (g, hs) # ys \<Longrightarrow> g \<notin> fst ` set xs \<Longrightarrow> handles s g = hs"
  using map_of_split [of g xs hs ys] by (simp add: handles_def del: map_of_append)

lemma fresh_group_bound: "k \<in> set ks \<Longrightarrow> k \<le> fold max ks (a::nat)"
proof (induction ks arbitrary: a)
  case Nil
  then show ?case by simp
next
  case (Cons x xs)
  have mono: "a \<le> fold max xs a" for a :: nat
    by (induction xs arbitrary: a) (auto intro: order_trans [OF max.cobounded2])
  from Cons show ?case
    by (auto intro: order_trans [OF _ mono])
qed

lemma fresh_group_fresh: "fresh_group gl \<notin> fst ` set gl"
proof
  assume "fresh_group gl \<in> fst ` set gl"
  then have "fresh_group gl \<in> set (map fst gl)" by simp
  then have "fresh_group gl \<le> fold max (map fst gl) 0" by (rule fresh_group_bound)
  then show False by (simp add: fresh_group_def)
qed

lemma clear_flags_fold:
  "fold (\<lambda>vd s'. s'\<lparr> is_hdl_map := (is_hdl_map s')[vd := False] \<rparr>) hs s
     = s\<lparr> is_hdl_map := fold (\<lambda>vd m. m[vd := False]) hs (is_hdl_map s) \<rparr>"
  by (induction hs arbitrary: s) auto

lemma clear_flags_length: "length (fold (\<lambda>vd m. m[vd := False]) hs m) = length m"
  by (induction hs arbitrary: m) auto

lemma clear_flags_nth:
  "v < length m \<Longrightarrow> fold (\<lambda>vd m. m[vd := False]) hs m ! v = (v \<notin> set hs \<and> m ! v)"
  proof (induction hs arbitrary: m)
  case Nil
  then show ?case by simp
next
  case (Cons a hs)
  then show ?case by (cases "a = v") auto
qed

lemma same_connectivity_refl: "same_connectivity P P"
  by (simp add: same_connectivity_def)

lemma same_connectivity_point: "same_connectivity (P\<lparr> point := pts \<rparr>) Q = same_connectivity P Q"
  by (simp add: same_connectivity_def)

lemma same_connectivity_fields:
  assumes "same_connectivity P Q"
  shows "num_vertices P = num_vertices Q" and "num_edges P = num_edges Q"
    and "in_edges P = in_edges Q" and "out_edges P = out_edges Q"
    and "source P = source Q" and "target P = target Q"
    and "opposite_edge P = opposite_edge Q" and "next_edge P = next_edge Q"
    and "edge_is_border P = edge_is_border Q"
proof -
  from assms have e: "Q = P\<lparr> point := point Q \<rparr>"
    by (simp add: same_connectivity_def)
  show "num_vertices P = num_vertices Q" and "num_edges P = num_edges Q"
    and "in_edges P = in_edges Q" and "out_edges P = out_edges Q"
    and "source P = source Q" and "target P = target Q"
    and "opposite_edge P = opposite_edge Q" and "next_edge P = next_edge Q"
    and "edge_is_border P = edge_is_border Q"
    by (subst e, simp)+
qed

lemma registry_inv_Deform_mesh: "registry_inv P0 (Deform_mesh env P0 its tol)"
  by (simp add: registry_inv_def Deform_mesh_def all_handles_def is_roi_def is_handle_def same_connectivity_refl)

lemma registry_inv_num_vertices: "registry_inv P0 s \<Longrightarrow> num_vertices (polyhedron s) = num_vertices P0"
  by (simp add: registry_inv_def same_connectivity_fields)

lemma registry_inv_reset: "registry_inv P0 s \<Longrightarrow> registry_inv P0 (reset s)"
  using registry_inv_num_vertices [of P0 s]
  by (simp add: registry_inv_def reset_def all_handles_def is_roi_def is_handle_def)

lemma registry_inv_create_handle_group:
  "registry_inv P0 s \<Longrightarrow> registry_inv P0 (snd (create_handle_group s))"
  using fresh_group_fresh [of "handle_group_list s"]
  by (auto simp: registry_inv_def create_handle_group_def Let_def all_handles_def is_roi_def is_handle_def)

lemma registry_inv_insert_roi:
  "registry_inv P0 s \<Longrightarrow> vd < num_vertices P0 \<Longrightarrow> registry_inv P0 (snd (insert_roi vd s))"
  by (auto simp: registry_inv_def insert_roi_def all_handles_def is_roi_def is_handle_def nth_list_update)

lemma registry_inv_insert_handle:
  assumes "registry_inv P0 s" and "live_group s g" and "vd < num_vertices P0"
  shows "registry_inv P0 (snd (insert_handle g vd s))"
proof (cases "is_handle s vd")
  case True
  with assms show ?thesis by (simp add: insert_handle_def)
next
  case False
  from assms(1,2) obtain xs hs ys
    where gl: "handle_group_list s = xs @ (g, hs) # ys" "g \<notin> fst ` set xs" "g \<notin> fst ` set ys"
    using alist_split [of g "handle_group_list s"] by (auto simp: registry_inv_def live_group_def)
  from False assms(1,3) have nh: "vd \<notin> set (all_handles s)"
    by (simp add: registry_inv_def)
  with gl assms False show ?thesis
    by (auto simp: registry_inv_def insert_handle_def insert_roi_def Let_def all_handles_def
          group_push_back_split is_roi_def is_handle_def nth_list_update)
qed


lemma registry_invD:
  assumes "registry_inv P0 s"
  shows "same_connectivity (polyhedron s) P0"
    and "length (is_roi_map s) = num_vertices P0"
    and "length (is_hdl_map s) = num_vertices P0"
    and "distinct (roi s)"
    and "\<And>v. v \<in> set (roi s) \<longleftrightarrow> v < num_vertices P0 \<and> is_roi_map s ! v"
    and "distinct (map fst (handle_group_list s))"
    and "distinct (all_handles s)"
    and "\<And>v. v \<in> set (all_handles s) \<longleftrightarrow> v < num_vertices P0 \<and> is_hdl_map s ! v"
    and "\<And>v. v < num_vertices P0 \<Longrightarrow> is_hdl_map s ! v \<Longrightarrow> is_roi_map s ! v"
  using assms by (simp_all add: registry_inv_def is_roi_def is_handle_def)

lemma registry_invI:
  assumes "same_connectivity (polyhedron s) P0"
    and "length (is_roi_map s) = num_vertices P0"
    and "length (is_hdl_map s) = num_vertices P0"
    and "distinct (roi s)"
    and "\<And>v. v \<in> set (roi s) \<longleftrightarrow> v < num_vertices P0 \<and> is_roi_map s ! v"
    and "distinct (map fst (handle_group_list s))"
    and "distinct (all_handles s)"
    and "\<And>v. v \<in> set (all_handles s) \<longleftrightarrow> v < num_vertices P0 \<and> is_hdl_map s ! v"
    and "\<And>v. v < num_vertices P0 \<Longrightarrow> is_hdl_map s ! v \<Longrightarrow> is_roi_map s ! v"
  shows "registry_inv P0 s"
  using assms by (simp add: registry_inv_def is_roi_def is_handle_def)

lemma registry_inv_erase_handle_group:
  assumes "registry_inv P0 s" and "live_group s g"
  shows "registry_inv P0 (erase_handle_group g s)"
proof -
  note D = registry_invD [OF assms(1)]
  from D(6) assms(2) obtain xs hs ys
    where gl: "handle_group_list s = xs @ (g, hs) # ys" "g \<notin> fst ` set xs" "g \<notin> fst ` set ys"
    using alist_split [of g "handle_group_list s"] by (auto simp: live_group_def)
  have h: "handles (s\<lparr> need_preprocess := True \<rparr>) g = hs"
    using gl by (simp add: handles_split)
  let ?s' = "erase_handle_group g s"
  have s': "?s' = s\<lparr> need_preprocess := True,
                     is_hdl_map := fold (\<lambda>vd m. m[vd := False]) hs (is_hdl_map s),
                     handle_group_list := xs @ ys \<rparr>"
    unfolding erase_handle_group_def Let_def h clear_flags_fold
    using gl by (simp add: filter_absent_key)
  have rest: "polyhedron ?s' = polyhedron s" "is_roi_map ?s' = is_roi_map s" "roi ?s' = roi s"
    "is_hdl_map ?s' = fold (\<lambda>vd m. m[vd := False]) hs (is_hdl_map s)"
    "handle_group_list ?s' = xs @ ys"
    by (subst s', simp)+
  have ah: "all_handles s = concat (map snd xs) @ hs @ concat (map snd ys)"
    using gl by (simp add: all_handles_def)
  have ah': "all_handles ?s' = concat (map snd xs) @ concat (map snd ys)"
    by (simp add: all_handles_def rest)
  have d': "distinct (all_handles ?s')"
    using D(7) unfolding ah ah' by auto
  have set': "v \<in> set (all_handles ?s') \<longleftrightarrow> v \<in> set (all_handles s) \<and> v \<notin> set hs" for v
    using D(7) unfolding ah ah' by auto
  show ?thesis
  proof (rule registry_invI)
    show "same_connectivity (polyhedron ?s') P0" by (simp add: rest D)
    show "length (is_roi_map ?s') = num_vertices P0" by (simp add: rest D)
    show "length (is_hdl_map ?s') = num_vertices P0" by (simp add: rest D clear_flags_length)
    show "distinct (roi ?s')" by (simp add: rest D)
    show "v \<in> set (roi ?s') \<longleftrightarrow> v < num_vertices P0 \<and> is_roi_map ?s' ! v" for v
      by (simp add: rest D)
    show "distinct (map fst (handle_group_list ?s'))"
      using D(6) by (simp add: rest gl)
    show "distinct (all_handles ?s')" by (rule d')
    show "v \<in> set (all_handles ?s') \<longleftrightarrow> v < num_vertices P0 \<and> is_hdl_map ?s' ! v" for v
      using D(3) by (auto simp: set' rest D(8) clear_flags_nth)
    show "is_roi_map ?s' ! v" if "v < num_vertices P0" "is_hdl_map ?s' ! v" for v
      using that D(3) D(9) [of v] by (simp add: rest clear_flags_nth)
  qed
qed

lemma remove_handle_sets:
  assumes "distinct (A @ hs @ B)" and "vd \<in> set hs"
  shows "distinct (A @ remove1 vd hs @ B)"
    and "set (A @ remove1 vd hs @ B) = set (A @ hs @ B) - {vd}"
proof -
  from assms have r: "set (remove1 vd hs) = set hs - {vd}"
    by (simp add: set_remove1_eq)
  from assms have "vd \<notin> set A" and "vd \<notin> set B"
    by auto
  with r show "set (A @ remove1 vd hs @ B) = set (A @ hs @ B) - {vd}"
    by auto
  from assms r show "distinct (A @ remove1 vd hs @ B)"
    by (simp add: distinct_remove1) blast
qed

lemma erase_handle_False: "erase_handle g vd s = (False, s') \<Longrightarrow> s' = s"
  by (auto simp: erase_handle_def split: if_splits)

lemma erase_handle_True:
  "erase_handle g vd s = (True, s') \<Longrightarrow>
     s' = s\<lparr> is_hdl_map := (is_hdl_map s)[vd := False],
             handle_group_list := group_erase g vd (handle_group_list s),
             need_preprocess := True \<rparr>
     \<and> is_handle s vd \<and> vd \<in> set (handles s g)"
  by (auto simp: erase_handle_def split: if_splits)

lemma registry_inv_erase_handle:
  assumes "registry_inv P0 s" and "live_group s g" and "vd < num_vertices P0"
  shows "registry_inv P0 (snd (erase_handle g vd s))"
proof (cases "fst (erase_handle g vd s)")
  case False
  then have "snd (erase_handle g vd s) = s"
    using erase_handle_False [of g vd s "snd (erase_handle g vd s)"] by (simp add: prod_eq_iff)
  with assms show ?thesis by simp
next
  case True
  then have e: "erase_handle g vd s = (True, snd (erase_handle g vd s))"
    by (simp add: prod_eq_iff)
  note t = erase_handle_True [OF e]
  from assms obtain xs hs ys
    where gl: "handle_group_list s = xs @ (g, hs) # ys" "g \<notin> fst ` set xs" "g \<notin> fst ` set ys"
    using alist_split [of g "handle_group_list s"] by (auto simp: registry_inv_def live_group_def)
  from t gl have vd: "vd \<in> set hs" by (simp add: handles_split)
  let ?s' = "snd (erase_handle g vd s)"
  have s': "?s' = s\<lparr> is_hdl_map := (is_hdl_map s)[vd := False],
             handle_group_list := xs @ (g, remove1 vd hs) # ys,
             need_preprocess := True \<rparr>"
    using t gl by (simp add: group_erase_split)
  have ah: "all_handles s = concat (map snd xs) @ hs @ concat (map snd ys)"
    using gl by (simp add: all_handles_def)
  have ah': "all_handles ?s' = concat (map snd xs) @ remove1 vd hs @ concat (map snd ys)"
    by (subst s') (simp add: all_handles_def)
  from assms(1) have d: "distinct (all_handles s)"
    by (simp add: registry_inv_def)
  have d': "distinct (all_handles ?s')"
    using d vd unfolding ah ah' by (rule remove_handle_sets(1))
  have set': "set (all_handles ?s') = set (all_handles s) - {vd}"
    using d vd unfolding ah ah' by (rule remove_handle_sets(2))
  have keys: "distinct (map fst (handle_group_list ?s'))"
    using assms(1) gl by (subst s') (simp add: registry_inv_def)
  have rest: "polyhedron ?s' = polyhedron s" "is_roi_map ?s' = is_roi_map s" "roi ?s' = roi s"
    "is_hdl_map ?s' = (is_hdl_map s)[vd := False]"
    by (subst s', simp)+
  from assms(1) have len: "length (is_hdl_map s) = num_vertices P0"
    and memo: "\<And>v. v \<in> set (all_handles s) \<longleftrightarrow> v < num_vertices P0 \<and> is_hdl_map s ! v"
    and subo: "\<And>v. v < num_vertices P0 \<Longrightarrow> is_hdl_map s ! v \<Longrightarrow> is_roi_map s ! v"
    by (simp_all add: registry_inv_def is_handle_def is_roi_def)
  have mem: "v \<in> set (all_handles ?s') \<longleftrightarrow> v < num_vertices P0 \<and> is_handle ?s' v" for v
    using assms(3) len memo [of v]
    by (cases "v = vd") (simp_all add: set' is_handle_def rest)
  have sub: "v < num_vertices P0 \<Longrightarrow> is_handle ?s' v \<Longrightarrow> is_roi ?s' v" for v
    using assms(3) len subo [of v]
    by (cases "v = vd") (simp_all add: is_handle_def is_roi_def rest)
  from assms(1) have "same_connectivity (polyhedron s) P0"
    "length (is_roi_map s) = num_vertices P0" "distinct (roi s)"
    "\<forall>v. v \<in> set (roi s) \<longleftrightarrow> v < num_vertices P0 \<and> is_roi_map s ! v"
    by (simp_all add: registry_inv_def is_roi_def)
  with len d' keys mem sub show ?thesis
    unfolding registry_inv_def by (simp add: rest is_roi_def)
qed


lemma erase_handle_loop_result:
  "erase_handle_loop gs vd s = Inr (b, s') \<Longrightarrow> \<exists>g \<in> set gs. erase_handle g vd s = (True, s') \<and> b"
proof (induction gs)
  case Nil
  then show ?case by simp
next
  case (Cons g gs)
  show ?case
  proof (cases "fst (erase_handle g vd s)")
    case True
    with Cons.prems show ?thesis
      by (cases "erase_handle g vd s") auto
  next
    case False
    then have "erase_handle g vd s = (False, s)"
      using erase_handle_False [of g vd s "snd (erase_handle g vd s)"] by (simp add: prod_eq_iff)
    with Cons show ?thesis by simp
  qed
qed

lemma erase_handle_search_result:
  assumes "erase_handle_search vd s = Inr (b, s')"
  shows "(\<not> b \<and> s' = s \<and> \<not> is_handle s vd)
         \<or> (b \<and> is_handle s vd \<and> (\<exists>g. live_group s g \<and> erase_handle g vd s = (True, s')))"
proof (cases "is_handle s vd")
  case False
  with assms show ?thesis by (simp add: erase_handle_search_def)
next
  case True
  with assms have "erase_handle_loop (map fst (handle_group_list s)) vd s = Inr (b, s')"
    by (simp add: erase_handle_search_def)
  from erase_handle_loop_result [OF this] True show ?thesis
    by (auto simp: live_group_def)
qed

lemma registry_inv_erase_handle_search:
  assumes "registry_inv P0 s" and "vd < num_vertices P0" and "erase_handle_search vd s = Inr (b, s')"
  shows "registry_inv P0 s'"
proof -
  from erase_handle_search_result [OF assms(3)]
  consider "s' = s" | g where "live_group s g" "erase_handle g vd s = (True, s')"
    by blast
  then show ?thesis
  proof cases
    case 1
    with assms(1) show ?thesis by simp
  next
    case 2
    from registry_inv_erase_handle [OF assms(1) 2(1) assms(2)] 2(2) show ?thesis
      by simp
  qed
qed

lemma erase_handle_search_frame:
  assumes "erase_handle_search vd s = Inr (b, s')"
  shows "roi s' = roi s" and "is_roi_map s' = is_roi_map s" and "polyhedron s' = polyhedron s"
    and "vd < length (is_hdl_map s) \<Longrightarrow> \<not> is_handle s' vd"
  using erase_handle_search_result [OF assms]
  by (auto dest!: erase_handle_True simp: is_handle_def)

lemma registry_inv_erase_roi:
  assumes "registry_inv P0 s" and "vd < num_vertices P0" and "erase_roi vd s = Inr (b, s')"
  shows "registry_inv P0 s'"
proof (cases "is_roi s vd")
  case False
  with assms show ?thesis by (simp add: erase_roi_def)
next
  case True
  with assms(3) obtain b1 s1 where s1: "erase_handle_search vd s = Inr (b1, s1)"
    and s': "s' = s1\<lparr> is_roi_map := (is_roi_map s1)[vd := False],
                       roi := remove1 vd (roi s1),
                       need_preprocess := True \<rparr>"
    by (auto simp: erase_roi_def split: sum.splits if_splits)
  note D = registry_invD [OF registry_inv_erase_handle_search [OF assms(1,2) s1]]
  from D(3) assms(2) have nh: "\<not> is_hdl_map s1 ! vd"
    using erase_handle_search_frame(4) [OF s1] registry_invD(3) [OF assms(1)]
    by (simp add: is_handle_def)
  have ah: "all_handles s' = all_handles s1"
    by (simp add: s' all_handles_def)
  show ?thesis
  proof (rule registry_invI)
    show "same_connectivity (polyhedron s') P0" by (simp add: s' D)
    show "length (is_roi_map s') = num_vertices P0" by (simp add: s' D)
    show "length (is_hdl_map s') = num_vertices P0" by (simp add: s' D)
    show "distinct (roi s')" by (simp add: s' D)
    show "v \<in> set (roi s') \<longleftrightarrow> v < num_vertices P0 \<and> is_roi_map s' ! v" for v
      using D(2) D(4) assms(2) by (cases "v = vd") (simp_all add: s' D(5))
    show "distinct (map fst (handle_group_list s'))" by (simp add: s' D)
    show "distinct (all_handles s')" by (simp add: ah D)
    show "v \<in> set (all_handles s') \<longleftrightarrow> v < num_vertices P0 \<and> is_hdl_map s' ! v" for v
      by (simp add: ah D(8)) (simp add: s')
    show "is_roi_map s' ! v" if "v < num_vertices P0" "is_hdl_map s' ! v" for v
      using that nh D(9) [of v] by (cases "v = vd") (simp_all add: s')
  qed
qed

lemma registry_inv_insert_roi_range:
  "registry_inv P0 s \<Longrightarrow> \<forall>vd \<in> set vds. vd < num_vertices P0
     \<Longrightarrow> registry_inv P0 (insert_roi_range vds s)"
  unfolding insert_roi_range_def
  by (induction vds arbitrary: s) (simp_all add: registry_inv_insert_roi)

lemma live_group_insert_handle: "live_group (snd (insert_handle g vd s)) g' = live_group s g'"
  by (force simp: live_group_def insert_handle_def insert_roi_def Let_def group_push_back_def)

lemma registry_inv_insert_handle_range:
  "registry_inv P0 s \<Longrightarrow> live_group s g \<Longrightarrow> \<forall>vd \<in> set vds. vd < num_vertices P0
     \<Longrightarrow> registry_inv P0 (insert_handle_range g vds s)"
  unfolding insert_handle_range_def
  by (induction vds arbitrary: s) (simp_all add: registry_inv_insert_handle live_group_insert_handle)

subsection \<open>What the solver steps leave alone\<close>

declare deform_loop.simps [simp del]

lemma deform_loop_invariant:
  assumes "\<And>s s'. Q s \<Longrightarrow> step s = Some s' \<Longrightarrow> Q s'"
    and "Q s" and "deform_loop rnd step energy_fn its tol ite energy_this s = Some s'"
  shows "Q s'"
  using assms
proof (induction rnd step energy_fn its tol ite energy_this s rule: deform_loop.induct)
  case (1 rnd step energy_fn its tol ite energy_this s)
  show ?case
  proof (cases "ite < its")
    case False
    with "1.prems" show ?thesis
      by (subst (asm) deform_loop.simps) simp
  next
    case True
    with "1.prems"(3) obtain s1 where s1: "step s = Some s1"
      by (subst (asm) deform_loop.simps) (auto split: option.splits)
    from "1.prems"(1) [OF "1.prems"(2) s1] have Q1: "Q s1" .
    show ?thesis
    proof (cases "tol > 0 \<and> ite + 1 < its")
      case False
      with True s1 "1.prems"(3)
      have "deform_loop rnd step energy_fn its tol (Suc ite) energy_this s1 = Some s'"
        by (subst (asm) deform_loop.simps) auto
      from "1.IH"(2) [OF True s1 False "1.prems"(1) Q1 this] show ?thesis .
    next
      case tol: True
      with True s1 "1.prems"(3) obtain e1 where e1: "energy_fn s1 = Some e1"
        by (subst (asm) deform_loop.simps) (auto split: option.splits)
      show ?thesis
      proof (cases "ite \<noteq> 0 \<and> energy_dif_below rnd energy_this e1 tol")
        case stop: True
        with True s1 tol e1 "1.prems"(3) have "s' = s1"
          by (subst (asm) deform_loop.simps) auto
        with Q1 show ?thesis by simp
      next
        case go: False
        with True s1 tol e1 "1.prems"(3)
        have "deform_loop rnd step energy_fn its tol (Suc ite) e1 s1 = Some s'"
          by (subst (asm) deform_loop.simps) auto
        from "1.IH"(1) [OF True s1 tol refl e1 go "1.prems"(1) Q1 this] show ?thesis .
      qed
    qed
  qed
qed


lemma update_solution_frame:
  "update_solution env s = s\<lparr> solution := solution (update_solution env s) \<rparr>"
  by (simp add: update_solution_def update_solution_arap_def update_solution_spokes_and_rims_def
        solve_and_copy_def Let_def split: prod.splits)

lemma optimal_rotations_svd_frame:
  "optimal_rotations_svd env s = Some s' \<Longrightarrow> s' = s\<lparr> rot_mtr := rot_mtr s' \<rparr>"
  by (auto simp: optimal_rotations_svd_def optimal_rotations_svd_arap_def
        optimal_rotations_svd_spokes_and_rims_def Let_def split: if_splits option.splits)

lemma main_steps_frame:
  assumes "main_steps env s = Some s'"
  shows "s' = s\<lparr> solution := solution s', rot_mtr := rot_mtr s' \<rparr>"
proof -
  let ?u = "update_solution env s"
  from assms have "s' = ?u\<lparr> rot_mtr := rot_mtr s' \<rparr>"
    by (simp add: main_steps_def optimal_rotations_svd_frame)
  then have "s' = (s\<lparr> solution := solution ?u \<rparr>)\<lparr> rot_mtr := rot_mtr s' \<rparr>"
    using update_solution_frame [of env s] by simp
  moreover from this have "solution s' = solution ?u"
    by (metis (no_types) deform_mesh.select_convs(3) deform_mesh.surjective
        deform_mesh.update_convs(10) deform_mesh.update_convs(3))
  ultimately show ?thesis by simp
qed

lemma deform_loop_frame:
  assumes "deform_loop rnd (main_steps env) energy_fn its tol ite energy_this s = Some s'"
  shows "s' = s\<lparr> solution := solution s', rot_mtr := rot_mtr s' \<rparr>"
proof -
  let ?Q = "\<lambda>t. \<exists>sol rm. t = s\<lparr> solution := sol, rot_mtr := rm \<rparr>"
  have step: "?Q t'" if "?Q t" "main_steps env t = Some t'" for t t'
  proof -
    from that(1) obtain sol rm where t: "t = s\<lparr> solution := sol, rot_mtr := rm \<rparr>" by blast
    have "t' = t\<lparr> solution := solution t', rot_mtr := rot_mtr t' \<rparr>"
      by (rule main_steps_frame [OF that(2)])
    also have "\<dots> = s\<lparr> solution := solution t', rot_mtr := rot_mtr t' \<rparr>"
      by (simp add: t)
    finally show ?thesis by blast
  qed
  have "?Q s" by (rule exI [of _ "solution s"], rule exI [of _ "rot_mtr s"]) simp
  have "?Q s'"
    by (rule deform_loop_invariant [where Q = ?Q and step = "main_steps env", OF _ \<open>?Q s\<close> assms])
       (rule step)
  then obtain sol rm where "s' = s\<lparr> solution := sol, rot_mtr := rm \<rparr>" by blast
  then show ?thesis by simp
qed


subsection \<open>The registry operations leave the solver's data alone\<close>

lemma solver_part_create_handle_group: "solver_part (snd (create_handle_group s)) = solver_part s"
  by (simp add: solver_part_def create_handle_group_def Let_def)

lemma solver_part_insert_roi: "solver_part (snd (insert_roi vd s)) = solver_part s"
  by (simp add: solver_part_def insert_roi_def)

lemma solver_part_insert_handle: "solver_part (snd (insert_handle g vd s)) = solver_part s"
  by (simp add: solver_part_def insert_handle_def insert_roi_def Let_def)

lemma solver_part_insert_roi_range: "solver_part (insert_roi_range vds s) = solver_part s"
  unfolding insert_roi_range_def
  by (induction vds arbitrary: s) (simp_all add: solver_part_insert_roi)

lemma solver_part_insert_handle_range: "solver_part (insert_handle_range g vds s) = solver_part s"
  unfolding insert_handle_range_def
  by (induction vds arbitrary: s) (simp_all add: solver_part_insert_handle)

lemma solver_part_erase_handle_group: "solver_part (erase_handle_group g s) = solver_part s"
  by (simp add: solver_part_def erase_handle_group_def Let_def clear_flags_fold)

lemma solver_part_erase_handle: "solver_part (snd (erase_handle g vd s)) = solver_part s"
  by (simp add: solver_part_def erase_handle_def)

lemma solver_part_erase_handle_search:
  assumes "erase_handle_search vd s = Inr (b, s')"
  shows "solver_part s' = solver_part s"
proof -
  from erase_handle_search_result [OF assms]
  consider "s' = s" | g where "erase_handle g vd s = (True, s')"
    by blast
  then show ?thesis
  proof cases
    case 1
    then show ?thesis by simp
  next
    case 2
    with solver_part_erase_handle [of g vd s] show ?thesis by simp
  qed
qed

lemma solver_part_erase_roi:
  assumes "erase_roi vd s = Inr (b, s')"
  shows "solver_part s' = solver_part s"
proof (cases "is_roi s vd")
  case False
  with assms show ?thesis by (simp add: erase_roi_def)
next
  case True
  with assms obtain b1 s1 where s1: "erase_handle_search vd s = Inr (b1, s1)"
    and s': "s' = s1\<lparr> is_roi_map := (is_roi_map s1)[vd := False],
                       roi := remove1 vd (roi s1),
                       need_preprocess := True \<rparr>"
    by (auto simp: erase_roi_def split: sum.splits if_splits)
  from solver_part_erase_handle_search [OF s1] show ?thesis
    by (simp add: s' solver_part_def)
qed

lemma solver_part_reset: "solver_part (reset s) = solver_part s"
  by (simp add: solver_part_def reset_def)

subsection \<open>The solver operations leave the registry's data alone\<close>

lemma registry_part_preprocess: "registry_part (snd (preprocess env s)) = registry_part s"
  by (simp add: registry_part_def preprocess_frame)

lemma registry_part_preprocess_if_needed: "registry_part (preprocess_if_needed env s) = registry_part s"
  by (simp add: preprocess_if_needed_def registry_part_preprocess)

lemma registry_part_translate: "registry_part (translate env g t s) = registry_part s"
  using registry_part_preprocess_if_needed [of env s]
  by (simp add: translate_def Let_def registry_part_def)

lemma registry_part_rotate_handles:
  "registry_part (rotate_handles env g c quat t s) = registry_part s"
  using registry_part_preprocess_if_needed [of env s]
  by (simp add: rotate_handles_def Let_def registry_part_def)

lemma registry_part_assign: "registry_part (assign env vd p s) = registry_part s"
  using registry_part_preprocess_if_needed [of env s]
  by (simp add: assign_def Let_def registry_part_def)

lemma deform_result:
  assumes "deform env its tol s = Some s'"
  obtains s1 where "s1 = (preprocess_if_needed env s)\<lparr> solution := solution s1, rot_mtr := rot_mtr s1 \<rparr>"
    and "s' = assign_solution s1"
proof -
  from assms obtain s1
    where l: "deform_loop (rounding env) (main_steps env) (energy env) its tol 0 (Finite 0) (preprocess_if_needed env s) = Some s1"
      and s': "s' = assign_solution s1"
    by (auto simp: deform_def Let_def split: option.splits)
  from deform_loop_frame [OF l] s' show ?thesis by (rule that)
qed

lemma registry_part_deform:
  assumes "deform env its tol s = Some s'"
  shows "registry_part s' = registry_part s"
proof -
  from assms obtain s1
    where s1: "s1 = (preprocess_if_needed env s)\<lparr> solution := solution s1, rot_mtr := rot_mtr s1 \<rparr>"
      and s': "s' = assign_solution s1"
    by (rule deform_result)
  have "registry_part s' = registry_part s1"
    by (simp add: s' assign_solution_def registry_part_def)
  also have "\<dots> = registry_part (preprocess_if_needed env s)"
    by (subst s1) (simp add: registry_part_def)
  finally show ?thesis
    by (simp add: registry_part_preprocess_if_needed)
qed


subsection \<open>The connectivity of the mesh is never changed\<close>

lemma same_connectivity_trans:
  "same_connectivity A B \<Longrightarrow> same_connectivity B C \<Longrightarrow> same_connectivity A C"
  by (simp add: same_connectivity_def) (metis polyhedron.update_convs(10) polyhedron.surjective)

lemma fold_point_connectivity:
  "same_connectivity (fold (\<lambda>vd P. if c vd then P\<lparr> point := f vd P \<rparr> else P) xs P) Q
     = same_connectivity P Q"
  by (induction xs arbitrary: P) (simp_all add: same_connectivity_point)

lemma revert_non_roi_connectivity:
  "same_connectivity (revert_non_roi s) Q = same_connectivity (polyhedron s) Q"
  unfolding revert_non_roi_def by (rule fold_point_connectivity)

lemma region_of_solution_polyhedron: "polyhedron (region_of_solution s) = revert_non_roi s"
  by (simp add: region_of_solution_def Let_def split: prod.splits)

lemma revert_non_roi_flag: "revert_non_roi (s\<lparr> need_preprocess := b \<rparr>) = revert_non_roi s"
  by (simp add: revert_non_roi_def is_roi_def cong: if_cong)

lemma preprocess_polyhedron:
  "polyhedron (snd (preprocess env s))
     = (if need_preprocess s then revert_non_roi s else polyhedron s)"
  by (simp add: preprocess_clean preprocess_dirty Let_def region_of_solution_polyhedron
        revert_non_roi_flag)

lemma preprocess_connectivity:
  "same_connectivity (polyhedron (snd (preprocess env s))) Q = same_connectivity (polyhedron s) Q"
  by (simp add: preprocess_polyhedron revert_non_roi_connectivity)

lemma preprocess_if_needed_connectivity:
  "same_connectivity (polyhedron (preprocess_if_needed env s)) Q = same_connectivity (polyhedron s) Q"
  by (simp add: preprocess_if_needed_def preprocess_connectivity)

lemma assign_solution_connectivity:
  "same_connectivity (polyhedron (assign_solution s)) Q = same_connectivity (polyhedron s) Q"
  by (simp add: assign_solution_def Let_def fold_point_connectivity)

lemma translate_polyhedron: "polyhedron (translate env g t s) = polyhedron (preprocess_if_needed env s)"
  by (simp add: translate_def Let_def)

lemma rotate_handles_polyhedron:
  "polyhedron (rotate_handles env g c quat t s) = polyhedron (preprocess_if_needed env s)"
  by (simp add: rotate_handles_def Let_def)

lemma assign_polyhedron: "polyhedron (assign env vd p s) = polyhedron (preprocess_if_needed env s)"
  by (simp add: assign_def Let_def)

lemma deform_connectivity:
  assumes "deform env its tol s = Some s'"
  shows "same_connectivity (polyhedron s') Q = same_connectivity (polyhedron s) Q"
proof -
  from assms obtain s1
    where s1: "s1 = (preprocess_if_needed env s)\<lparr> solution := solution s1, rot_mtr := rot_mtr s1 \<rparr>"
      and s': "s' = assign_solution s1"
    by (rule deform_result)
  have "polyhedron s1 = polyhedron (preprocess_if_needed env s)"
    by (subst s1) simp
  then show ?thesis
    by (simp add: s' assign_solution_connectivity preprocess_if_needed_connectivity)
qed

subsection \<open>The rebuilt region of solution starts with the region of interest\<close>

lemma one_ring_step_prefix:
  "\<exists>sfx. snd (snd (fold (\<lambda>e (idm, next_id, push_vector).
             let vt = source P e
             in if idm ! vt = not_assigned
                then (idm[vt := next_id], Suc next_id, push_vector @ [vt])
                else (idm, next_id, push_vector)) es (idm, n, pv))) = pv @ sfx"
proof (induction es arbitrary: idm n pv)
  case Nil
  then show ?case by simp
next
  case (Cons e es)
  show ?case
  proof (cases "idm ! source P e = not_assigned")
    case True
    with Cons [of "idm[source P e := n]" "Suc n" "pv @ [source P e]"] show ?thesis
      by (auto simp: Let_def)
  next
    case False
    with Cons [of idm n pv] show ?thesis
      by (auto simp: Let_def)
  qed
qed

lemma assign_ros_id_to_one_ring_prefix:
  "\<exists>sfx. snd (snd (assign_ros_id_to_one_ring P vd st)) = snd (snd st) @ sfx"
  using one_ring_step_prefix [of P "in_edges P vd" "fst st" "fst (snd st)" "snd (snd st)"]
  by (simp add: assign_ros_id_to_one_ring_def)

lemma fold_one_ring_prefix:
  "\<exists>sfx. snd (snd (fold (assign_ros_id_to_one_ring P) vds st)) = snd (snd st) @ sfx"
proof (induction vds arbitrary: st)
  case Nil
  then show ?case by simp
next
  case (Cons vd vds)
  from assign_ros_id_to_one_ring_prefix [of P vd st] obtain sfx1
    where "snd (snd (assign_ros_id_to_one_ring P vd st)) = snd (snd st) @ sfx1" by blast
  moreover from Cons [of "assign_ros_id_to_one_ring P vd st"] obtain sfx2
    where "snd (snd (fold (assign_ros_id_to_one_ring P) vds (assign_ros_id_to_one_ring P vd st)))
             = snd (snd (assign_ros_id_to_one_ring P vd st)) @ sfx2" by blast
  ultimately show ?case by simp
qed

lemma region_of_solution_ros: "ros (region_of_solution s) = fst (snd (assign_ros_ids s))"
  by (simp add: region_of_solution_def Let_def split: prod.splits)

lemma region_of_solution_ros_id_map: "ros_id_map (region_of_solution s) = fst (assign_ros_ids s)"
  by (simp add: region_of_solution_def Let_def split: prod.splits)

lemma assign_ros_ids_prefix: "\<exists>sfx. fst (snd (assign_ros_ids s)) = roi s @ sfx"
  using fold_one_ring_prefix [of "polyhedron s" "roi s"
      "(assign_roi_ids (roi s) 0 (replicate (num_vertices (polyhedron s)) not_assigned),
        length (roi s), roi s)"]
  by (auto simp: assign_ros_ids_def Let_def split: prod.splits)

lemma roi_in_ros_region_of_solution: "set (roi s) \<subseteq> set (ros (region_of_solution s))"
  using assign_ros_ids_prefix [of s] by (auto simp: region_of_solution_ros)

lemma roi_in_ros_preprocess_if_needed:
  assumes "roi_in_ros s"
  shows "set (roi s) \<subseteq> set (ros (preprocess_if_needed env s))"
proof (cases "need_preprocess s")
  case True
  then show ?thesis
    using roi_in_ros_region_of_solution [of "s\<lparr> need_preprocess := False \<rparr>"]
    by (simp add: preprocess_if_needed_def preprocess_dirty Let_def)
next
  case False
  with assms show ?thesis
    by (simp add: preprocess_if_needed_def roi_in_ros_def)
qed


lemma roi_in_ros_insert_roi: "roi_in_ros s \<Longrightarrow> roi_in_ros (snd (insert_roi vd s))"
  by (simp add: roi_in_ros_def insert_roi_def)

lemma roi_in_ros_insert_handle: "roi_in_ros s \<Longrightarrow> roi_in_ros (snd (insert_handle g vd s))"
  by (simp add: roi_in_ros_def insert_handle_def insert_roi_def Let_def)

lemma roi_in_ros_erase_handle: "roi_in_ros s \<Longrightarrow> roi_in_ros (snd (erase_handle g vd s))"
  by (simp add: roi_in_ros_def erase_handle_def)

lemma roi_in_ros_erase_handle_search:
  assumes "roi_in_ros s" and "erase_handle_search vd s = Inr (b, s')"
  shows "roi_in_ros s'"
proof -
  from erase_handle_search_result [OF assms(2)]
  consider "s' = s" | g where "erase_handle g vd s = (True, s')"
    by blast
  then show ?thesis
  proof cases
    case 1
    with assms(1) show ?thesis by simp
  next
    case 2
    with roi_in_ros_erase_handle [OF assms(1), of g vd] show ?thesis by simp
  qed
qed

lemma roi_in_ros_erase_roi:
  assumes "roi_in_ros s" and "erase_roi vd s = Inr (b, s')"
  shows "roi_in_ros s'"
proof (cases "is_roi s vd")
  case False
  with assms show ?thesis by (simp add: erase_roi_def)
next
  case True
  with assms(2) have "need_preprocess s'"
    by (auto simp: erase_roi_def split: sum.splits if_splits)
  then show ?thesis by (simp add: roi_in_ros_def)
qed

lemma roi_in_ros_solver_op:
  assumes "roi_in_ros s" and "registry_part s' = registry_part s"
    and "ros s' = ros (preprocess_if_needed env s)"
  shows "roi_in_ros s'"
  using roi_in_ros_preprocess_if_needed [OF assms(1), of env] assms(2,3)
  by (simp add: roi_in_ros_def registry_part_def)

lemma preprocess_ros: "ros (snd (preprocess env s)) = ros (preprocess_if_needed env s)"
  by (simp add: preprocess_if_needed_def preprocess_clean)

lemma deform_ros:
  assumes "deform env its tol s = Some s'"
  shows "ros s' = ros (preprocess_if_needed env s)"
proof -
  from assms obtain s1
    where s1: "s1 = (preprocess_if_needed env s)\<lparr> solution := solution s1, rot_mtr := rot_mtr s1 \<rparr>"
      and s': "s' = assign_solution s1"
    by (rule deform_result)
  have "ros s1 = ros (preprocess_if_needed env s)"
    by (subst s1) simp
  then show ?thesis
    by (simp add: s' assign_solution_def)
qed

lemma registry_inv_transfer:
  assumes "registry_inv P0 s" and "registry_part s' = registry_part s"
    and "same_connectivity (polyhedron s') P0 = same_connectivity (polyhedron s) P0"
  shows "registry_inv P0 s'"
  using assms by (simp add: registry_inv_def registry_part_def all_handles_def is_roi_def is_handle_def)

subsection \<open>Invariants of the reachable states\<close>

lemma reachable_inv:
  assumes "reachable env P0 s"
  shows "registry_inv P0 s \<and> roi_in_ros s"
  using assms
proof (induction rule: reachable.induct)
  case (r_Deform_mesh its tol)
  show ?case
    by (simp add: registry_inv_Deform_mesh) (simp add: roi_in_ros_def Deform_mesh_def)
next
  case (r_reset s)
  then show ?case
    by (simp add: registry_inv_reset) (simp add: roi_in_ros_def reset_def)
next
  case (r_create_handle_group s)
  then show ?case
    by (simp add: registry_inv_create_handle_group)
       (simp add: roi_in_ros_def create_handle_group_def Let_def)
next
  case (r_insert_handle s g vd)
  then show ?case
    by (simp add: registry_inv_insert_handle roi_in_ros_insert_handle)
next
  case (r_insert_handle_range s g vds)
  have "roi_in_ros t \<Longrightarrow> roi_in_ros (fold (\<lambda>vd s'. snd (insert_handle g vd s')) vds t)" for t
    by (induction vds arbitrary: t) (simp_all add: roi_in_ros_insert_handle)
  with r_insert_handle_range registry_inv_insert_handle_range [of P0 s g vds] show ?case
    by (auto simp: insert_handle_range_def)
next
  case (r_erase_handle_group s g)
  then show ?case
    by (simp add: registry_inv_erase_handle_group)
       (simp add: roi_in_ros_def erase_handle_group_def Let_def clear_flags_fold)
next
  case (r_erase_handle s g vd)
  then show ?case
    by (simp add: registry_inv_erase_handle roi_in_ros_erase_handle)
next
  case (r_erase_handle_search s vd b s')
  then show ?case
    using registry_inv_erase_handle_search [of P0 s vd b s'] roi_in_ros_erase_handle_search [of s vd b s']
    by simp
next
  case (r_insert_roi s vd)
  then show ?case
    by (simp add: registry_inv_insert_roi roi_in_ros_insert_roi)
next
  case (r_insert_roi_range s vds)
  have "roi_in_ros t \<Longrightarrow> roi_in_ros (fold (\<lambda>vd s'. snd (insert_roi vd s')) vds t)" for t
    by (induction vds arbitrary: t) (simp_all add: roi_in_ros_insert_roi)
  with r_insert_roi_range registry_inv_insert_roi_range [of P0 s vds] show ?case
    by (auto simp: insert_roi_range_def)
next
  case (r_erase_roi s vd b s')
  then show ?case
    using registry_inv_erase_roi [of P0 s vd b s'] roi_in_ros_erase_roi [of s vd b s']
    by simp
next
  case (r_preprocess s)
  then show ?case
    using registry_inv_transfer [of P0 s "snd (preprocess env s)"]
      roi_in_ros_solver_op [of s "snd (preprocess env s)" env]
    by (simp add: registry_part_preprocess preprocess_connectivity preprocess_ros)
next
  case (r_translate s g t)
  then show ?case
    using registry_inv_transfer [of P0 s "translate env g t s"]
      roi_in_ros_solver_op [of s "translate env g t s" env]
    by (simp add: registry_part_translate translate_polyhedron preprocess_if_needed_connectivity)
       (simp add: translate_def Let_def)
next
  case (r_rotate s g c quat t)
  then show ?case
    using registry_inv_transfer [of P0 s "rotate_handles env g c quat t s"]
      roi_in_ros_solver_op [of s "rotate_handles env g c quat t s" env]
    by (simp add: registry_part_rotate_handles rotate_handles_polyhedron
          preprocess_if_needed_connectivity)
       (simp add: rotate_handles_def Let_def)
next
  case (r_assign s vd p)
  then show ?case
    using registry_inv_transfer [of P0 s "assign env vd p s"]
      roi_in_ros_solver_op [of s "assign env vd p s" env]
    by (simp add: registry_part_assign assign_polyhedron preprocess_if_needed_connectivity)
       (simp add: assign_def Let_def)
next
  case (r_deform s its tol s')
  then show ?case
    using registry_inv_transfer [of P0 s s'] roi_in_ros_solver_op [of s s' env]
    by (simp add: registry_part_deform deform_connectivity deform_ros)
next
  case (r_deform_default s s')
  then show ?case
    using registry_inv_transfer [of P0 s s'] roi_in_ros_solver_op [of s s' env]
    by (simp add: deform_default_def registry_part_deform deform_connectivity deform_ros)
next
  case (r_set_iterations s its)
  then show ?case
    by (simp add: set_iterations_def registry_inv_def roi_in_ros_def all_handles_def
          is_roi_def is_handle_def)
next
  case (r_set_tolerance s tol)
  then show ?case
    by (simp add: set_tolerance_def registry_inv_def roi_in_ros_def all_handles_def
          is_roi_def is_handle_def)
qed

subsection \<open>Evaluation on the examples\<close>

lemmas eval_defs =
  Deform_mesh_def insert_roi_def insert_handle_def create_handle_group_def fresh_group_def
  erase_handle_def erase_handle_group_def erase_handle_search_def erase_roi_def
  group_push_back_def group_erase_def handles_def reset_def
  is_roi_def is_handle_def ros_id_def live_group_def
  preprocess_def preprocess_if_needed_def region_of_solution_def assign_ros_ids_def
  revert_non_roi_def assign_ros_id_to_one_ring_def resize_def not_assigned_def
  assemble_laplacian_def assemble_laplacian_arap_def assemble_laplacian_spokes_and_rims_def
  counting_solver_fields triangle_def Let_def

lemma deform_loop_stop:
  "\<not> ite < its \<Longrightarrow> deform_loop rnd step energy_fn its tol ite energy_this s = Some s"
  by (subst deform_loop.simps) simp

lemma deform_loop_unfold:
  "ite < its \<Longrightarrow>
   deform_loop rnd step energy_fn its tol ite energy_this s =
     (case step s of
        None \<Rightarrow> None
      | Some s1 \<Rightarrow>
          if tol > 0 \<and> ite + 1 < its
          then (case energy_fn s1 of
                  None \<Rightarrow> None
                | Some energy_this' \<Rightarrow>
                    if ite \<noteq> 0 \<and> energy_dif_below rnd energy_this energy_this' tol
                    then Some s1
                    else deform_loop rnd step energy_fn its tol (Suc ite) energy_this' s1)
          else deform_loop rnd step energy_fn its tol (Suc ite) energy_this s1)"
  by (subst deform_loop.simps) (auto simp: Let_def split: option.splits)

lemmas solver_eval_defs =
  deform_def deform_loop_stop deform_loop_unfold main_steps_def
  update_solution_def update_solution_arap_def solve_and_copy_def
  optimal_rotations_svd_def optimal_rotations_svd_arap_def extract_rotation_def
  assign_solution_def
  vec_add_def mat_vec_def mat_add_def mat_scale_def sub_to_col_def sub_to_row_def
  vec_scale_def dot_def mat_identity_def mat_mul_def mat_transpose_def determinant_def
  outer_def mat_zero_def

subsection \<open>Containment of handles, region of interest and region of solution\<close>

text \<open>
  Claim C2. In every reachable state every vertex that is a handle is in the region of
  interest; and after \<open>preprocess\<close>, successful or not, as in every reachable state whose
  flag is cleared, every vertex of the region of interest is in the \<open>ros\<close> sequence.
\<close>

theorem containment:
  assumes "reachable env P0 s"
  shows "(\<forall>v < num_vertices P0. is_handle s v \<longrightarrow> is_roi s v)
         \<and> (\<not> need_preprocess s \<longrightarrow> (\<forall>v < num_vertices P0. is_roi s v \<longrightarrow> v \<in> set (ros s)))
         \<and> (\<forall>ok s'. preprocess env s = (ok, s') \<longrightarrow>
               (\<forall>v < num_vertices P0. is_handle s' v \<longrightarrow> is_roi s' v)
               \<and> (\<forall>v < num_vertices P0. is_roi s' v \<longrightarrow> v \<in> set (ros s')))"
proof -
  have a: "(\<forall>v < num_vertices P0. is_handle t v \<longrightarrow> is_roi t v)
           \<and> (\<not> need_preprocess t \<longrightarrow> (\<forall>v < num_vertices P0. is_roi t v \<longrightarrow> v \<in> set (ros t)))"
    if "reachable env P0 t" for t
  proof -
    from reachable_inv [OF that] have i: "registry_inv P0 t" and r: "roi_in_ros t"
      by simp_all
    from registry_invD(9) [OF i] have "\<forall>v < num_vertices P0. is_handle t v \<longrightarrow> is_roi t v"
      by (simp add: is_handle_def is_roi_def)
    moreover from registry_invD(5) [OF i] r
    have "\<not> need_preprocess t \<longrightarrow> (\<forall>v < num_vertices P0. is_roi t v \<longrightarrow> v \<in> set (ros t))"
      by (auto simp: roi_in_ros_def is_roi_def)
    ultimately show ?thesis by simp
  qed
  have "reachable env P0 (snd (preprocess env s))"
    using assms by (rule r_preprocess)
  from a [OF this] a [OF assms] show ?thesis
    by (auto simp: preprocess_frame)
qed

theorem containment_witness:
  "reachable (counting_solver True ORIGINAL_ARAP) triangle
     (snd (insert_handle 1 0 (snd (create_handle_group
        (Deform_mesh (counting_solver True ORIGINAL_ARAP) triangle 5 0)))))
   \<and> is_handle (snd (insert_handle 1 0 (snd (create_handle_group
        (Deform_mesh (counting_solver True ORIGINAL_ARAP) triangle 5 0))))) 0
   \<and> is_roi (snd (insert_handle 1 0 (snd (create_handle_group
        (Deform_mesh (counting_solver True ORIGINAL_ARAP) triangle 5 0))))) 0
   \<and> 0 \<in> set (ros (snd (preprocess (counting_solver True ORIGINAL_ARAP)
        (snd (insert_handle 1 0 (snd (create_handle_group
          (Deform_mesh (counting_solver True ORIGINAL_ARAP) triangle 5 0))))))))"
proof -
  let ?E = "counting_solver True ORIGINAL_ARAP"
  let ?c = "snd (create_handle_group (Deform_mesh ?E triangle 5 0))"
  let ?s = "snd (insert_handle 1 0 ?c)"
  have r0: "reachable ?E triangle ?c"
    by (intro r_create_handle_group r_Deform_mesh)
  have lg: "live_group ?c 1" and v: "0 < num_vertices triangle"
    by (simp_all add: eval_defs)
  have r: "reachable ?E triangle ?s"
    by (rule r_insert_handle [OF r0 lg v])
  have h: "is_handle ?s 0"
    by (simp add: eval_defs)
  from containment [OF r] v h have roi: "is_roi ?s 0"
    by blast
  have "preprocess ?E ?s = (fst (preprocess ?E ?s), snd (preprocess ?E ?s))"
    by simp
  with containment [OF r] v have "is_roi (snd (preprocess ?E ?s)) 0 \<longrightarrow> 0 \<in> set (ros (snd (preprocess ?E ?s)))"
    by blast
  with roi have "0 \<in> set (ros (snd (preprocess ?E ?s)))"
    by (simp add: is_roi_def preprocess_frame)
  with r h roi show ?thesis by simp
qed


subsection \<open>The example states\<close>

lemma reachable_one_group: "reachable (counting_solver True ORIGINAL_ARAP) triangle one_group"
  unfolding one_group_def by (intro r_create_handle_group r_Deform_mesh)

lemma reachable_one_handle: "reachable (counting_solver True ORIGINAL_ARAP) triangle one_handle"
  unfolding one_handle_def
  by (rule r_insert_handle [OF reachable_one_group]) (simp_all add: one_group_def eval_defs)

lemma reachable_one_handle_ready:
  "reachable (counting_solver True ORIGINAL_ARAP) triangle one_handle_ready"
  unfolding one_handle_ready_def by (rule r_preprocess [OF reachable_one_handle])

lemma one_handle_ready_fields:
  "need_preprocess one_handle_ready = False"
  "is_roi_map one_handle_ready = [True, False, False]"
  "is_hdl_map one_handle_ready = [True, False, False]"
  "roi one_handle_ready = [0]"
  "handle_group_list one_handle_ready = [(1, [0])]"
  by (simp_all add: one_handle_ready_def preprocess_frame)
     (simp_all add: one_handle_def one_group_def eval_defs numeral_3_eq_3)

subsection \<open>Inserting and erasing a handle\<close>

lemma handles_group_push_back:
  "map_of (group_push_back g vd gl) g = map_option (\<lambda>hs. hs @ [vd]) (map_of gl g)"
  by (induction gl) (auto simp: group_push_back_def)

lemma insert_handle_new:
  "\<not> is_handle s vd \<Longrightarrow>
   snd (insert_handle g vd s)
     = s\<lparr> need_preprocess := True,
          is_roi_map := (if is_roi s vd then is_roi_map s else (is_roi_map s)[vd := True]),
          roi := (if is_roi s vd then roi s else roi s @ [vd]),
          is_hdl_map := (is_hdl_map s)[vd := True],
          handle_group_list := group_push_back g vd (handle_group_list s) \<rparr>"
  by (simp add: insert_handle_def insert_roi_def Let_def is_roi_def)

text \<open>
  Claim C7, as the code has it. In a reachable state, for a live group \<open>g\<close> and a vertex
  \<open>vd\<close> that is not a handle of another group, \<open>insert_handle(g, vd)\<close> followed by
  \<open>erase_handle(g, vd)\<close> leaves \<open>is_handle(vd)\<close> false and leaves the region of interest as
  \<open>insert_handle\<close> left it, with \<open>vd\<close> in it; the region of interest is the one before the
  insertion when \<open>vd\<close> was in it already.
\<close>

theorem insert_then_erase_handle:
  assumes "reachable env P0 s" and "live_group s g" and "vd < num_vertices P0"
    and "is_handle s vd \<longrightarrow> vd \<in> set (handles s g)"
  shows "\<not> is_handle (snd (erase_handle g vd (snd (insert_handle g vd s)))) vd
         \<and> is_roi (snd (erase_handle g vd (snd (insert_handle g vd s)))) vd
         \<and> roi (snd (erase_handle g vd (snd (insert_handle g vd s)))) = roi (snd (insert_handle g vd s))
         \<and> (is_roi s vd \<longrightarrow>
               roi (snd (erase_handle g vd (snd (insert_handle g vd s)))) = roi s
               \<and> is_roi_map (snd (erase_handle g vd (snd (insert_handle g vd s)))) = is_roi_map s)"
proof -
  from reachable_inv [OF assms(1)] have i: "registry_inv P0 s" by simp
  note D = registry_invD [OF i]
  from D(2,3) assms(3) have len: "vd < length (is_roi_map s)" "vd < length (is_hdl_map s)"
    by simp_all
  show ?thesis
  proof (cases "is_handle s vd")
    case True
    with D(9) [of vd] assms(3) have "is_roi s vd"
      by (simp add: is_handle_def is_roi_def)
    with True assms(4) len show ?thesis
      by (simp add: insert_handle_def erase_handle_def is_handle_def is_roi_def)
  next
    case False
    from assms(2) have "map_of (handle_group_list s) g \<noteq> None"
      by (simp add: live_group_def map_of_eq_None_iff)
    then obtain hs where hs: "map_of (handle_group_list s) g = Some hs"
      by blast
    define s1 where "s1 = snd (insert_handle g vd s)"
    have s1: "s1 = s\<lparr> need_preprocess := True,
                      is_roi_map := (if is_roi s vd then is_roi_map s else (is_roi_map s)[vd := True]),
                      roi := (if is_roi s vd then roi s else roi s @ [vd]),
                      is_hdl_map := (is_hdl_map s)[vd := True],
                      handle_group_list := group_push_back g vd (handle_group_list s) \<rparr>"
      unfolding s1_def using False by (rule insert_handle_new)
    have f: "is_hdl_map s1 = (is_hdl_map s)[vd := True]"
      "handle_group_list s1 = group_push_back g vd (handle_group_list s)"
      "is_roi_map s1 = (if is_roi s vd then is_roi_map s else (is_roi_map s)[vd := True])"
      "roi s1 = (if is_roi s vd then roi s else roi s @ [vd])"
      by (subst s1, simp)+
    from hs have "vd \<in> set (handles s1 g)"
      by (simp add: handles_def f handles_group_push_back)
    moreover have "is_handle s1 vd"
      using len by (simp add: is_handle_def f)
    ultimately have s2: "snd (erase_handle g vd s1)
        = s1\<lparr> is_hdl_map := (is_hdl_map s1)[vd := False],
               handle_group_list := group_erase g vd (handle_group_list s1),
               need_preprocess := True \<rparr>"
      by (simp add: erase_handle_def)
    have "\<not> is_handle (snd (erase_handle g vd s1)) vd"
      using len by (simp add: s2 is_handle_def f)
    moreover have "is_roi (snd (erase_handle g vd s1)) vd"
      using len by (simp add: s2 is_roi_def f)
    moreover have "roi (snd (erase_handle g vd s1)) = roi s1"
      by (simp add: s2)
    moreover have "is_roi s vd \<longrightarrow> roi (snd (erase_handle g vd s1)) = roi s
        \<and> is_roi_map (snd (erase_handle g vd s1)) = is_roi_map s"
      by (simp add: s2 f)
    ultimately show ?thesis
      unfolding s1_def by simp
  qed
qed

theorem insert_then_erase_handle_witness:
  "reachable (counting_solver True ORIGINAL_ARAP) triangle one_group
   \<and> live_group one_group 1
   \<and> \<not> is_handle one_group 0
   \<and> \<not> is_handle (snd (erase_handle 1 0 (snd (insert_handle 1 0 one_group)))) 0
   \<and> is_roi (snd (erase_handle 1 0 (snd (insert_handle 1 0 one_group)))) 0"
proof -
  have a: "live_group one_group 1" "0 < num_vertices triangle" "\<not> is_handle one_group 0"
    by (simp_all add: one_group_def eval_defs)
  from insert_then_erase_handle [OF reachable_one_group a(1,2)] a reachable_one_group
  show ?thesis by simp
qed

text \<open>
  Claim C7 as stated fails: vertex 0 of the triangle is not in the region of interest
  before the two calls and is in it after them.
\<close>

theorem insert_then_erase_handle_counterexample:
  "\<not> is_roi one_group 0
   \<and> is_roi (snd (erase_handle 1 0 (snd (insert_handle 1 0 one_group)))) 0"
  by (simp add: one_group_def eval_defs)


subsection \<open>The validity flag\<close>

lemma erase_handle_group_flag: "need_preprocess (erase_handle_group g s)"
  by (simp add: erase_handle_group_def Let_def clear_flags_fold)

lemma erase_roi_result:
  assumes "erase_roi vd s = Inr (b, s')"
  shows "(b \<longrightarrow> need_preprocess s') \<and> (\<not> b \<longrightarrow> s' = s)"
  using assms by (auto simp: erase_roi_def split: if_splits sum.splits)

text \<open>
  Claim C8, as the code has it. Erasing a group always sets the flag. Inserting or
  erasing a handle or a vertex of the region of interest sets the flag when the call
  returns true; a call that returns false leaves the whole object, the flag included, as
  it was. \<open>create_handle_group\<close> leaves the flag as it was.
\<close>

theorem validity_flag_after_mutation:
  "need_preprocess (erase_handle_group g s)
   \<and> need_preprocess (snd (create_handle_group s)) = need_preprocess s
   \<and> (fst (insert_handle g vd s) \<longrightarrow> need_preprocess (snd (insert_handle g vd s)))
   \<and> (\<not> fst (insert_handle g vd s) \<longrightarrow> snd (insert_handle g vd s) = s)
   \<and> (fst (erase_handle g vd s) \<longrightarrow> need_preprocess (snd (erase_handle g vd s)))
   \<and> (\<not> fst (erase_handle g vd s) \<longrightarrow> snd (erase_handle g vd s) = s)
   \<and> (fst (insert_roi vd s) \<longrightarrow> need_preprocess (snd (insert_roi vd s)))
   \<and> (\<not> fst (insert_roi vd s) \<longrightarrow> snd (insert_roi vd s) = s)
   \<and> (\<forall>b s'. erase_handle_search vd s = Inr (b, s') \<longrightarrow>
         (b \<longrightarrow> need_preprocess s') \<and> (\<not> b \<longrightarrow> s' = s))
   \<and> (\<forall>b s'. erase_roi vd s = Inr (b, s') \<longrightarrow>
         (b \<longrightarrow> need_preprocess s') \<and> (\<not> b \<longrightarrow> s' = s))"
proof -
  have "(b \<longrightarrow> need_preprocess s') \<and> (\<not> b \<longrightarrow> s' = s)"
    if "erase_handle_search vd s = Inr (b, s')" for b s'
    using erase_handle_search_result [OF that] by (auto dest!: erase_handle_True)
  then show ?thesis
    using erase_roi_result [of vd s]
    by (simp add: erase_handle_group_flag)
       (simp add: create_handle_group_def insert_handle_def insert_roi_def erase_handle_def Let_def)
qed

lemma one_handle_ready_erase_roi:
  "erase_roi 0 one_handle_ready
     = Inr (True, one_handle_ready\<lparr> is_hdl_map := [False, False, False],
                                    handle_group_list := [(1, [])],
                                    need_preprocess := True,
                                    is_roi_map := [False, False, False],
                                    roi := [] \<rparr>)"
  by (simp add: erase_roi_def erase_handle_search_def erase_handle_def handles_def
        group_erase_def is_roi_def is_handle_def one_handle_ready_fields)

theorem validity_flag_after_mutation_witness:
  "\<not> need_preprocess one_handle_ready
   \<and> need_preprocess (erase_handle_group 1 one_handle_ready)
   \<and> need_preprocess (snd (insert_handle 1 1 one_handle_ready))
   \<and> need_preprocess (snd (erase_handle 1 0 one_handle_ready))
   \<and> need_preprocess (snd (insert_roi 1 one_handle_ready))
   \<and> snd (insert_roi 0 one_handle_ready) = one_handle_ready
   \<and> (\<exists>s'. erase_roi 0 one_handle_ready = Inr (True, s') \<and> need_preprocess s')"
proof -
  have "fst (insert_handle 1 1 one_handle_ready)" "fst (erase_handle 1 0 one_handle_ready)"
    "fst (insert_roi 1 one_handle_ready)" "\<not> fst (insert_roi 0 one_handle_ready)"
    by (simp_all add: insert_handle_def erase_handle_def insert_roi_def handles_def
          is_roi_def is_handle_def one_handle_ready_fields Let_def)
  with validity_flag_after_mutation [of 1 one_handle_ready 1]
    validity_flag_after_mutation [of 1 one_handle_ready 0]
    one_handle_ready_erase_roi
  show ?thesis
    by (simp add: one_handle_ready_fields)
qed

text \<open>
  Claim C8 as stated fails: once \<open>preprocess\<close> has cleared the flag, creating a group of
  handles, or inserting in the region of interest a vertex that is in it already, leaves
  the flag cleared.
\<close>

theorem validity_flag_counterexample:
  "\<not> need_preprocess one_handle_ready
   \<and> \<not> need_preprocess (snd (create_handle_group one_handle_ready))
   \<and> \<not> need_preprocess (snd (insert_roi 0 one_handle_ready))"
  by (simp add: create_handle_group_def insert_roi_def is_roi_def Let_def one_handle_ready_fields)

subsection \<open>Assigning a target position to a vertex that is not a handle\<close>

text \<open>
  Claim C10. For a vertex that is not a handle, \<open>assign\<close> returns the object as the
  pending \<open>preprocess\<close> leaves it when the flag is set, and unchanged otherwise: the arrays
  \<open>solution\<close>, \<open>original\<close> and \<open>rot_mtr\<close>, the registry and the mesh are not written besides.
  The function is total: no error is signalled.
\<close>

theorem assign_non_handle:
  assumes "\<not> is_handle s vd"
  shows "assign env vd target_position s
           = (if need_preprocess s then snd (preprocess env s) else s)"
  using assms
  by (simp add: assign_def preprocess_if_needed_def Let_def is_handle_def preprocess_frame)

theorem assign_non_handle_witness:
  "\<not> is_handle one_handle_ready 1
   \<and> assign (counting_solver True ORIGINAL_ARAP) 1 (1, 1, 1) one_handle_ready = one_handle_ready
   \<and> \<not> is_handle one_handle 1
   \<and> assign (counting_solver True ORIGINAL_ARAP) 1 (1, 1, 1) one_handle = one_handle_ready"
proof -
  have a: "\<not> is_handle one_handle_ready 1" "\<not> need_preprocess one_handle_ready"
    by (simp_all add: is_handle_def one_handle_ready_fields)
  have b: "\<not> is_handle one_handle 1" "need_preprocess one_handle"
    by (simp_all add: one_handle_def one_group_def eval_defs)
  from assign_non_handle [OF a(1)] assign_non_handle [OF b(1)] a b show ?thesis
    by (simp add: one_handle_ready_def)
qed

subsection \<open>Reset\<close>

text \<open>What \<open>reset\<close> does restore: the registry and the flag.\<close>

lemma reset_registry:
  "registry_part (reset s) = registry_part (Deform_mesh env (polyhedron s) its tol)
   \<and> need_preprocess (reset s)
   \<and> iterations (reset s) = iterations s \<and> tolerance (reset s) = tolerance s"
  by (simp add: registry_part_def reset_def Deform_mesh_def)

text \<open>
  Claim C5 on the code. On the triangle with vertex 0 in the region of interest, one
  iteration of \<open>deform\<close> moves vertex 0 to \<open>(-2, -2, 0)\<close>. After \<open>reset\<close> the object still
  holds the region of solution of the deformation, where the constructor leaves it empty;
  and the next \<open>preprocess\<close> moves vertex 0 back to \<open>(0, 0, 0)\<close>, which it does not do on a
  newly constructed object.
\<close>

theorem reset_keeps_region_of_solution:
  "(case deform (counting_solver True ORIGINAL_ARAP) 1 0
           (snd (insert_roi 0 (Deform_mesh (counting_solver True ORIGINAL_ARAP) triangle 5 0))) of
      None \<Rightarrow> False
    | Some s \<Rightarrow>
        ros (reset s) = [0, 2, 1]
        \<and> ros (Deform_mesh (counting_solver True ORIGINAL_ARAP) (polyhedron s)
                 (iterations s) (tolerance s)) = []
        \<and> point (polyhedron s) ! 0 = (- 2, - 2, 0)
        \<and> point (polyhedron (snd (preprocess (counting_solver True ORIGINAL_ARAP) (reset s)))) ! 0
            = (0, 0, 0)
        \<and> point (polyhedron (snd (preprocess (counting_solver True ORIGINAL_ARAP)
              (Deform_mesh (counting_solver True ORIGINAL_ARAP) (polyhedron s)
                 (iterations s) (tolerance s))))) ! 0
            = (- 2, - 2, 0))"
  by (simp add: eval_defs solver_eval_defs)

subsection \<open>Where the positions of the mesh are written\<close>

lemma fold_point_length:
  "length (point (fold (\<lambda>vd P. if c vd then P\<lparr> point := (point P)[vd := f vd] \<rparr> else P) xs P))
     = length (point P)"
  by (induction xs arbitrary: P) simp_all

lemma fold_point_nth:
  "v < length (point P) \<Longrightarrow>
   point (fold (\<lambda>vd P. if c vd then P\<lparr> point := (point P)[vd := f vd] \<rparr> else P) xs P) ! v
     = (if v \<in> set xs \<and> c v then f v else point P ! v)"
proof (induction xs arbitrary: P rule: rev_induct)
  case Nil
  then show ?case by simp
next
  case (snoc x xs)
  then show ?case
    by (cases "x = v") (simp_all add: fold_point_length)
qed

lemma revert_non_roi_nth:
  "v < length (point (polyhedron s)) \<Longrightarrow>
   point (revert_non_roi s) ! v
     = (if v \<in> set (ros s) \<and> \<not> is_roi s v then original s ! (ros_id_map s ! v)
        else point (polyhedron s) ! v)"
  unfolding revert_non_roi_def by (rule fold_point_nth)

lemma assign_solution_nth:
  "v < length (point (polyhedron s)) \<Longrightarrow>
   point (polyhedron (assign_solution s)) ! v
     = (if v \<in> set (ros s) \<and> is_roi s v then solution s ! ros_id s v
        else point (polyhedron s) ! v)"
  by (simp add: assign_solution_def Let_def fold_point_nth)

lemma solver_part_polyhedron: "solver_part s' = solver_part s \<Longrightarrow> polyhedron s' = polyhedron s"
  by (simp add: solver_part_def)

text \<open>
  Claim C9. The registry operations, \<open>reset\<close> and the setters leave the mesh alone. A
  \<open>preprocess\<close> that finds the flag set leaves the mesh as the write-back loop of
  \<open>region_of_solution\<close> leaves it: a vertex of the previous \<open>ros\<close> that is not in the region of
  interest gets its saved original position, every other position is kept. \<open>translate\<close>,
  \<open>rotate\<close> and \<open>assign\<close> write the mesh only through the pending \<open>preprocess\<close>. \<open>deform\<close>
  runs the pending \<open>preprocess\<close>, iterates on \<open>solution\<close> and \<open>rot_mtr\<close> only, and ends with
  \<open>assign_solution\<close>, which writes the solution of every vertex of \<open>ros\<close> that is in the
  region of interest and keeps every other position. The connectivity is never changed.
\<close>

theorem mesh_positions_written:
  "polyhedron (reset s) = polyhedron s
   \<and> polyhedron (snd (create_handle_group s)) = polyhedron s
   \<and> polyhedron (snd (insert_handle g vd s)) = polyhedron s
   \<and> polyhedron (insert_handle_range g vds s) = polyhedron s
   \<and> polyhedron (erase_handle_group g s) = polyhedron s
   \<and> polyhedron (snd (erase_handle g vd s)) = polyhedron s
   \<and> (\<forall>b s'. erase_handle_search vd s = Inr (b, s') \<longrightarrow> polyhedron s' = polyhedron s)
   \<and> polyhedron (snd (insert_roi vd s)) = polyhedron s
   \<and> polyhedron (insert_roi_range vds s) = polyhedron s
   \<and> (\<forall>b s'. erase_roi vd s = Inr (b, s') \<longrightarrow> polyhedron s' = polyhedron s)
   \<and> polyhedron (set_iterations its s) = polyhedron s
   \<and> polyhedron (set_tolerance tol s) = polyhedron s
   \<and> polyhedron (snd (preprocess env s))
        = (if need_preprocess s then revert_non_roi s else polyhedron s)
   \<and> polyhedron (translate env g t s) = polyhedron (snd (preprocess env s))
   \<and> polyhedron (rotate_handles env g c quat t s) = polyhedron (snd (preprocess env s))
   \<and> polyhedron (assign env vd p s) = polyhedron (snd (preprocess env s))
   \<and> (\<forall>s'. deform env its tol s = Some s' \<longrightarrow>
         (\<exists>s1. polyhedron s1 = polyhedron (snd (preprocess env s))
               \<and> ros s1 = ros (snd (preprocess env s))
               \<and> is_roi_map s1 = is_roi_map s
               \<and> s' = s1\<lparr> polyhedron := polyhedron (assign_solution s1) \<rparr>))
   \<and> same_connectivity (revert_non_roi s) (polyhedron s)
   \<and> same_connectivity (polyhedron (assign_solution s)) (polyhedron s)
   \<and> length (point (revert_non_roi s)) = length (point (polyhedron s))
   \<and> length (point (polyhedron (assign_solution s))) = length (point (polyhedron s))
   \<and> (\<forall>v < length (point (polyhedron s)).
         point (revert_non_roi s) ! v
           = (if v \<in> set (ros s) \<and> \<not> is_roi s v then original s ! (ros_id_map s ! v)
              else point (polyhedron s) ! v))
   \<and> (\<forall>v < length (point (polyhedron s)).
         point (polyhedron (assign_solution s)) ! v
           = (if v \<in> set (ros s) \<and> is_roi s v then solution s ! ros_id s v
              else point (polyhedron s) ! v))"
proof -
  have pp: "polyhedron (preprocess_if_needed env s) = polyhedron (snd (preprocess env s))"
    "ros (preprocess_if_needed env s) = ros (snd (preprocess env s))"
    by (simp_all add: preprocess_if_needed_def preprocess_clean)
  have registry:
    "polyhedron (reset s) = polyhedron s"
    "polyhedron (snd (create_handle_group s)) = polyhedron s"
    "polyhedron (snd (insert_handle g vd s)) = polyhedron s"
    "polyhedron (insert_handle_range g vds s) = polyhedron s"
    "polyhedron (erase_handle_group g s) = polyhedron s"
    "polyhedron (snd (erase_handle g vd s)) = polyhedron s"
    "polyhedron (snd (insert_roi vd s)) = polyhedron s"
    "polyhedron (insert_roi_range vds s) = polyhedron s"
    by (intro solver_part_polyhedron solver_part_reset solver_part_create_handle_group
          solver_part_insert_handle solver_part_insert_handle_range solver_part_erase_handle_group
          solver_part_erase_handle solver_part_insert_roi solver_part_insert_roi_range)+
  have search: "\<forall>b s'. erase_handle_search vd s = Inr (b, s') \<longrightarrow> polyhedron s' = polyhedron s"
    by (blast intro: solver_part_polyhedron solver_part_erase_handle_search)
  have eroi: "\<forall>b s'. erase_roi vd s = Inr (b, s') \<longrightarrow> polyhedron s' = polyhedron s"
    by (blast intro: solver_part_polyhedron solver_part_erase_roi)
  have setters: "polyhedron (set_iterations its s) = polyhedron s"
    "polyhedron (set_tolerance tol s) = polyhedron s"
    by (simp_all add: set_iterations_def set_tolerance_def)
  have targets: "polyhedron (translate env g t s) = polyhedron (snd (preprocess env s))"
    "polyhedron (rotate_handles env g c quat t s) = polyhedron (snd (preprocess env s))"
    "polyhedron (assign env vd p s) = polyhedron (snd (preprocess env s))"
    by (simp_all add: translate_polyhedron rotate_handles_polyhedron assign_polyhedron pp)
  have dfm: "\<forall>s'. deform env its tol s = Some s' \<longrightarrow>
         (\<exists>s1. polyhedron s1 = polyhedron (snd (preprocess env s))
               \<and> ros s1 = ros (snd (preprocess env s))
               \<and> is_roi_map s1 = is_roi_map s
               \<and> s' = s1\<lparr> polyhedron := polyhedron (assign_solution s1) \<rparr>)"
  proof (intro allI impI)
    fix s'
    assume "deform env its tol s = Some s'"
    then obtain s1
      where s1: "s1 = (preprocess_if_needed env s)\<lparr> solution := solution s1, rot_mtr := rot_mtr s1 \<rparr>"
        and s': "s' = assign_solution s1"
      by (rule deform_result)
    have "polyhedron s1 = polyhedron (snd (preprocess env s))"
      and "ros s1 = ros (snd (preprocess env s))"
      and "is_roi_map s1 = is_roi_map s"
      using registry_part_preprocess_if_needed [of env s]
      by (subst s1, simp add: pp registry_part_def)+
    moreover have "s' = s1\<lparr> polyhedron := polyhedron (assign_solution s1) \<rparr>"
      by (simp add: s' assign_solution_def)
    ultimately show "\<exists>s1. polyhedron s1 = polyhedron (snd (preprocess env s))
               \<and> ros s1 = ros (snd (preprocess env s))
               \<and> is_roi_map s1 = is_roi_map s
               \<and> s' = s1\<lparr> polyhedron := polyhedron (assign_solution s1) \<rparr>"
      by blast
  qed
  have conn: "same_connectivity (revert_non_roi s) (polyhedron s)"
    "same_connectivity (polyhedron (assign_solution s)) (polyhedron s)"
    by (simp_all add: revert_non_roi_connectivity assign_solution_connectivity same_connectivity_refl)
  have len: "length (point (revert_non_roi s)) = length (point (polyhedron s))"
    "length (point (polyhedron (assign_solution s))) = length (point (polyhedron s))"
    by (simp_all add: revert_non_roi_def assign_solution_def Let_def fold_point_length)
  have pre: "polyhedron (snd (preprocess env s))
        = (if need_preprocess s then revert_non_roi s else polyhedron s)"
    by (rule preprocess_polyhedron)
  have nth: "\<forall>v < length (point (polyhedron s)).
         point (revert_non_roi s) ! v
           = (if v \<in> set (ros s) \<and> \<not> is_roi s v then original s ! (ros_id_map s ! v)
              else point (polyhedron s) ! v)"
    "\<forall>v < length (point (polyhedron s)).
         point (polyhedron (assign_solution s)) ! v
           = (if v \<in> set (ros s) \<and> is_roi s v then solution s ! ros_id s v
              else point (polyhedron s) ! v)"
    by (simp_all add: revert_non_roi_nth assign_solution_nth)
  show ?thesis
    by (intro conjI registry search eroi setters targets dfm conn len pre nth)
qed


lemma free_vertex_deform:
  "deform (counting_solver True ORIGINAL_ARAP) 1 0 free_vertex = Some free_vertex_moved"
  by (simp add: free_vertex_moved_def free_vertex_def eval_defs solver_eval_defs numeral_3_eq_3)

lemma free_vertex_moved_fields:
  "point (polyhedron free_vertex_moved) = [(- 2, - 2, 0), (1, 0, 0), (0, 1, 0)]"
  "is_roi_map free_vertex_moved = [True, False, False]"
  "is_hdl_map free_vertex_moved = [False, False, False]"
  "roi free_vertex_moved = [0]"
  "ros free_vertex_moved = [0, 2, 1]"
  "ros_id_map free_vertex_moved = [0, 2, 1]"
  "original free_vertex_moved = [(0, 0, 0), (0, 1, 0), (1, 0, 0)]"
  "solution free_vertex_moved = [(- 2, - 2, 0), (0, 1, 0), (1, 0, 0)]"
  "need_preprocess free_vertex_moved = False"
  by (simp_all add: free_vertex_moved_def free_vertex_def Deform_mesh_def insert_roi_def
        is_roi_def triangle_def numeral_3_eq_3)

text \<open>
  On the triangle: \<open>deform\<close> writes the solution of vertex 0, which is in the region of
  interest, and keeps the position of vertex 1, which is not; \<open>erase_roi\<close> leaves the mesh
  alone; the next \<open>preprocess\<close> gives vertex 0 its original position back.
\<close>

theorem mesh_positions_written_witness:
  "deform (counting_solver True ORIGINAL_ARAP) 1 0 free_vertex = Some free_vertex_moved
   \<and> point (polyhedron free_vertex_moved) ! 1 = point (polyhedron free_vertex) ! 1
   \<and> (\<exists>s'. erase_roi 0 free_vertex_moved = Inr (True, s')
           \<and> polyhedron s' = polyhedron free_vertex_moved
           \<and> point (polyhedron (snd (preprocess (counting_solver True ORIGINAL_ARAP) s'))) ! 0
               = (0, 0, 0))"
proof -
  let ?E = "counting_solver True ORIGINAL_ARAP"
  note d = free_vertex_deform
  from mesh_positions_written [where s = free_vertex and env = ?E and its = 1 and tol = 0] d
  obtain s1 where s1: "polyhedron s1 = polyhedron (snd (preprocess ?E free_vertex))"
    "is_roi_map s1 = is_roi_map free_vertex"
    "free_vertex_moved = s1\<lparr> polyhedron := polyhedron (assign_solution s1) \<rparr>"
    by blast
  have pre: "point (polyhedron (snd (preprocess ?E free_vertex))) = point (polyhedron free_vertex)"
    by (simp add: free_vertex_def eval_defs)
  have l: "1 < length (point (polyhedron s1))" and nr: "\<not> is_roi s1 1"
    by (simp_all add: s1 pre is_roi_def) (simp_all add: free_vertex_def eval_defs)
  from mesh_positions_written [where s = s1] l nr
  have "point (polyhedron (assign_solution s1)) ! 1 = point (polyhedron s1) ! 1"
    by simp
  then have keep: "point (polyhedron free_vertex_moved) ! 1 = point (polyhedron free_vertex) ! 1"
    by (subst s1(3)) (simp add: s1(1) pre)
  define s' where "s' = free_vertex_moved\<lparr> is_roi_map := [False, False, False], roi := [],
                                            need_preprocess := True \<rparr>"
  have e: "erase_roi 0 free_vertex_moved = Inr (True, s')"
    by (simp add: erase_roi_def erase_handle_search_def is_roi_def is_handle_def
          free_vertex_moved_fields s'_def)
  with mesh_positions_written [where s = free_vertex_moved and vd = 0]
  have same: "polyhedron s' = polyhedron free_vertex_moved"
    by blast
  have flag: "need_preprocess s'" and l0: "0 < length (point (polyhedron s'))"
    and old: "0 \<in> set (ros s')" "\<not> is_roi s' 0" "original s' ! (ros_id_map s' ! 0) = (0, 0, 0)"
    by (simp_all add: s'_def is_roi_def free_vertex_moved_fields)
  from mesh_positions_written [where s = s' and env = ?E] flag
  have "polyhedron (snd (preprocess ?E s')) = revert_non_roi s'"
    by simp
  moreover from mesh_positions_written [where s = s'] l0 old
  have "point (revert_non_roi s') ! 0 = (0, 0, 0)"
    by simp
  ultimately have "point (polyhedron (snd (preprocess ?E s'))) ! 0 = (0, 0, 0)"
    by simp
  with d keep e same show ?thesis
    by blast
qed

subsection \<open>The iterations of \<open>deform\<close>\<close>








lemma fl_exact:
  "rnd x = x \<Longrightarrow> \<bar>x\<bar> \<le> DBL_MAX \<Longrightarrow> fl rnd x = Finite x"
  by (auto simp: fl_def Let_def)



lemma DBL_MAX_ge: "65536 \<le> DBL_MAX"
  by (simp add: DBL_MAX_def)

lemma fl_id: "\<bar>x\<bar> \<le> 65536 \<Longrightarrow> fl (\<lambda>x. x) x = Finite x"
  using DBL_MAX_ge by (intro fl_exact) simp_all

lemmas double_eval_defs =
  fl_id dsub_def dsub_to_col_def ddot_def dmat_vec_def dvec_sub_def dsquaredNorm_def


lemma facet_loop_unfold:
  "0 < k \<Longrightarrow>
   facet_loop k P body e0 e acc
     = (if next_edge P e \<noteq> e0 then facet_loop (k - 1) P body e0 (next_edge P e) (body e acc)
        else Some (body e acc))"
  by (cases k) (simp_all add: Let_def)















subsection \<open>The ros-ids are a bijection\<close>

lemma ids_ok_length:
  assumes "ids_ok n idm L"
  shows "length L \<le> n"
proof -
  from assms have "distinct L" and "set L \<subseteq> {..<n}"
    by (simp_all add: ids_ok_def)
  from card_mono [OF _ this(2)] distinct_card [OF this(1)] show ?thesis
    by simp
qed

lemma ids_ok_assigned:
  assumes "ids_ok n idm L" and "n \<le> not_assigned" and "vt < n"
  shows "idm ! vt = not_assigned \<longleftrightarrow> vt \<notin> set L"
proof
  assume na: "idm ! vt = not_assigned"
  show "vt \<notin> set L"
  proof
    assume "vt \<in> set L"
    then obtain i where i: "i < length L" "L ! i = vt"
      by (auto simp: in_set_conv_nth)
    with assms(1) have "idm ! vt = i"
      by (auto simp: ids_ok_def)
    with na i(1) ids_ok_length [OF assms(1)] assms(2) show False
      by simp
  qed
next
  assume "vt \<notin> set L"
  with assms(1,3) show "idm ! vt = not_assigned"
    by (simp add: ids_ok_def)
qed

lemma ids_ok_snoc:
  assumes "ids_ok n idm L" and "vt < n" and "vt \<notin> set L"
  shows "ids_ok n (idm[vt := length L]) (L @ [vt])"
proof -
  from assms(1) have len: "length idm = n" and d: "distinct L" and sub: "set L \<subseteq> {..<n}"
    and ids: "\<And>i. i < length L \<Longrightarrow> idm ! (L ! i) = i"
    and un: "\<And>v. v < n \<Longrightarrow> v \<notin> set L \<Longrightarrow> idm ! v = not_assigned"
    by (simp_all add: ids_ok_def)
  have "(idm[vt := length L]) ! ((L @ [vt]) ! i) = i" if "i < length (L @ [vt])" for i
  proof (cases "i < length L")
    case True
    with assms(3) have "L ! i \<noteq> vt" by auto
    with True ids [OF True] show ?thesis by (simp add: nth_append)
  next
    case False
    with that have "i = length L" by simp
    with assms(2) len show ?thesis by simp
  qed
  moreover have "(idm[vt := length L]) ! v = not_assigned" if "v < n" "v \<notin> set (L @ [vt])" for v
    using that un [of v] by simp
  ultimately show ?thesis
    using len d sub assms(2,3) by (simp add: ids_ok_def)
qed

lemma ids_ok_assign_roi_ids:
  assumes "ids_ok n idm pre" and "distinct (pre @ vds)" and "set vds \<subseteq> {..<n}"
  shows "ids_ok n (assign_roi_ids vds (length pre) idm) (pre @ vds)"
  using assms
proof (induction vds arbitrary: pre idm)
  case Nil
  then show ?case by simp
next
  case (Cons vd vds)
  from Cons.prems have "ids_ok n (idm[vd := length pre]) (pre @ [vd])"
    by (intro ids_ok_snoc) auto
  from Cons.IH [OF this] Cons.prems(2,3) show ?case
    by simp
qed

lemma ids_ok_one_ring_step:
  assumes "ids_ok n idm (pre @ pv)" and "next_id = length (pre @ pv)"
    and "\<forall>e \<in> set es. source P e < n" and "n \<le> not_assigned"
  shows "case fold (\<lambda>e (idm, next_id, push_vector).
             let vt = source P e
             in if idm ! vt = not_assigned
                then (idm[vt := next_id], Suc next_id, push_vector @ [vt])
                else (idm, next_id, push_vector)) es (idm, next_id, pv) of
           (idm', next', pv') \<Rightarrow>
             ids_ok n idm' (pre @ pv') \<and> next' = length (pre @ pv')
             \<and> source P ` set es \<subseteq> set (pre @ pv')
             \<and> set (pre @ pv) \<subseteq> set (pre @ pv')"
  using assms(1-3)
proof (induction es arbitrary: idm next_id pv)
  case Nil
  then show ?case by simp
next
  case (Cons e es)
  let ?vt = "source P e"
  from Cons.prems(3) have vt: "?vt < n" and rest: "\<forall>e \<in> set es. source P e < n"
    by simp_all
  show ?case
  proof (cases "idm ! ?vt = not_assigned")
    case True
    with ids_ok_assigned [OF Cons.prems(1) assms(4) vt] have "?vt \<notin> set (pre @ pv)"
      by simp
    from ids_ok_snoc [OF Cons.prems(1) vt this] Cons.prems(2)
    have "ids_ok n (idm[?vt := next_id]) (pre @ pv @ [?vt])" by simp
    from Cons.IH [OF this _ rest, of "Suc next_id"] Cons.prems(2) True show ?thesis
      by (auto simp: Let_def split: prod.splits)
  next
    case False
    with ids_ok_assigned [OF Cons.prems(1) assms(4) vt] have "?vt \<in> set (pre @ pv)"
      by simp
    with Cons.IH [OF Cons.prems(1,2) rest] False show ?thesis
      by (auto simp: Let_def split: prod.splits)
  qed
qed


lemma ids_ok_one_ring:
  assumes "ids_ok (num_vertices P) idm (pre @ pv)" and "next_id = length (pre @ pv)"
    and "wf_polyhedron P" and "vd < num_vertices P"
  shows "case assign_ros_id_to_one_ring P vd (idm, next_id, pv) of
           (idm', next', pv') \<Rightarrow>
             ids_ok (num_vertices P) idm' (pre @ pv') \<and> next' = length (pre @ pv')
             \<and> set (pre @ pv) \<subseteq> set (pre @ pv')"
proof -
  from assms(3,4) have "\<forall>e \<in> set (in_edges P vd). source P e < num_vertices P"
    and "num_vertices P \<le> not_assigned"
    by (simp_all add: wf_polyhedron_def)
  from ids_ok_one_ring_step [OF assms(1,2) this] show ?thesis
    by (auto simp: assign_ros_id_to_one_ring_def split: prod.splits)
qed

lemma ids_ok_fold_rings:
  assumes "ids_ok (num_vertices P) idm (pre @ pv)" and "next_id = length (pre @ pv)"
    and "wf_polyhedron P" and "\<forall>vd \<in> set vds. vd < num_vertices P"
  shows "case fold (assign_ros_id_to_one_ring P) vds (idm, next_id, pv) of
           (idm', next', pv') \<Rightarrow>
             ids_ok (num_vertices P) idm' (pre @ pv') \<and> next' = length (pre @ pv')
             \<and> set (pre @ pv) \<subseteq> set (pre @ pv')"
  using assms(1,2,4)
proof (induction vds arbitrary: idm next_id pv)
  case Nil
  then show ?case by simp
next
  case (Cons vd vds)
  obtain idm1 next1 pv1 where r: "assign_ros_id_to_one_ring P vd (idm, next_id, pv) = (idm1, next1, pv1)"
    by (cases "assign_ros_id_to_one_ring P vd (idm, next_id, pv)") auto
  from Cons.prems(3) have vd: "vd < num_vertices P" and rest: "\<forall>vd \<in> set vds. vd < num_vertices P"
    by simp_all
  from ids_ok_one_ring [OF Cons.prems(1,2) assms(3) vd] r
  have 1: "ids_ok (num_vertices P) idm1 (pre @ pv1)" "next1 = length (pre @ pv1)"
    "set (pre @ pv) \<subseteq> set (pre @ pv1)"
    by simp_all
  from Cons.IH [OF 1(1,2) rest] 1(3) show ?case
    by (auto simp: r split: prod.splits)
qed

lemma ids_ok_empty: "ids_ok n (replicate n not_assigned) []"
  by (simp add: ids_ok_def)

lemma assign_ros_ids_flag: "assign_ros_ids (s\<lparr> need_preprocess := b \<rparr>) = assign_ros_ids s"
  by (simp add: assign_ros_ids_def)

lemma assign_ros_ids_ok:
  assumes "registry_inv P0 s" and "wf_polyhedron P0"
  shows "case assign_ros_ids s of
           (idm, ros', outside_ros) \<Rightarrow> ids_ok (num_vertices P0) idm (ros' @ outside_ros)"
proof -
  let ?P = "polyhedron s"
  note D = registry_invD [OF assms(1)]
  note F = same_connectivity_fields [OF D(1)]
  have wf: "wf_polyhedron ?P"
    using assms(2) by (simp add: wf_polyhedron_def F)
  have n: "num_vertices ?P = num_vertices P0" by (rule F(1))
  from D(5) have sub: "set (roi s) \<subseteq> {..<num_vertices ?P}"
    by (auto simp: n)
  define idm1 where "idm1 = assign_roi_ids (roi s) 0 (replicate (num_vertices ?P) not_assigned)"
  have 1: "ids_ok (num_vertices ?P) idm1 ([] @ roi s)"
    unfolding idm1_def
    using ids_ok_assign_roi_ids [OF ids_ok_empty, of "roi s" "num_vertices ?P"] D(4) sub
    by simp
  obtain idm2 next2 ros1
    where r2: "fold (assign_ros_id_to_one_ring ?P) (roi s) (idm1, length (roi s), roi s)
                 = (idm2, next2, ros1)"
    by (cases "fold (assign_ros_id_to_one_ring ?P) (roi s) (idm1, length (roi s), roi s)") auto
  from ids_ok_fold_rings [OF 1 _ wf, of "length (roi s)" "roi s"] sub r2
  have 2: "ids_ok (num_vertices ?P) idm2 ros1" "next2 = length ros1"
    by auto
  then have sub1: "\<forall>vd \<in> set (drop (length (roi s)) ros1). vd < num_vertices ?P"
    by (auto simp: ids_ok_def dest!: in_set_dropD)
  obtain idm3 next3 outside_ros
    where r3: "fold (assign_ros_id_to_one_ring ?P) (drop (length (roi s)) ros1) (idm2, next2, [])
                 = (idm3, next3, outside_ros)"
    by (cases "fold (assign_ros_id_to_one_ring ?P) (drop (length (roi s)) ros1) (idm2, next2, [])")
       auto
  from ids_ok_fold_rings [of ?P idm2 ros1 "[]" next2, OF _ _ wf sub1] 2 r3
  have "ids_ok (num_vertices ?P) idm3 (ros1 @ outside_ros)"
    by simp
  moreover have "assign_ros_ids s = (idm3, ros1, outside_ros)"
    by (simp add: assign_ros_ids_def Let_def idm1_def [symmetric] r2 r3)
  ultimately show ?thesis
    by (simp add: n)
qed

lemma ids_ok_bij:
  assumes "ids_ok n idm L"
  shows "bij_betw (\<lambda>v. idm ! v) (set L) {0..<length L}"
proof -
  from assms have d: "distinct L" and ids: "\<And>i. i < length L \<Longrightarrow> idm ! (L ! i) = i"
    by (simp_all add: ids_ok_def)
  have "inj_on (\<lambda>v. idm ! v) (set L)"
  proof (rule inj_onI)
    fix v w
    assume "v \<in> set L" "w \<in> set L" "idm ! v = idm ! w"
    then obtain i j where "i < length L" "L ! i = v" "j < length L" "L ! j = w"
      by (auto simp: in_set_conv_nth)
    with ids [of i] ids [of j] \<open>idm ! v = idm ! w\<close> show "v = w"
      by auto
  qed
  moreover have "(\<lambda>v. idm ! v) ` set L = {0..<length L}"
  proof (intro set_eqI iffI)
    fix i
    assume "i \<in> (\<lambda>v. idm ! v) ` set L"
    then obtain j where "j < length L" "i = idm ! (L ! j)"
      by (auto simp: in_set_conv_nth)
    with ids [of j] show "i \<in> {0..<length L}" by simp
  next
    fix i
    assume "i \<in> {0..<length L}"
    then have "i < length L" by simp
    with ids [of i] show "i \<in> (\<lambda>v. idm ! v) ` set L"
      by (metis image_eqI nth_mem)
  qed
  ultimately show ?thesis by (simp add: bij_betw_def)
qed

lemma ids_ok_prefix:
  assumes "ids_ok n idm (xs @ ys)"
  shows "(\<lambda>v. idm ! v) ` set xs = {0..<length xs}" and "\<forall>i < length xs. idm ! (xs ! i) = i"
proof -
  from assms have ids: "\<And>i. i < length (xs @ ys) \<Longrightarrow> idm ! ((xs @ ys) ! i) = i"
    by (simp add: ids_ok_def)
  show p: "\<forall>i < length xs. idm ! (xs ! i) = i"
  proof (intro allI impI)
    fix i assume "i < length xs"
    with ids [of i] show "idm ! (xs ! i) = i" by (simp add: nth_append)
  qed
  show "(\<lambda>v. idm ! v) ` set xs = {0..<length xs}"
  proof (intro set_eqI iffI)
    fix i
    assume "i \<in> (\<lambda>v. idm ! v) ` set xs"
    then obtain j where "j < length xs" "i = idm ! (xs ! j)"
      by (auto simp: in_set_conv_nth)
    with p show "i \<in> {0..<length xs}" by simp
  next
    fix i
    assume "i \<in> {0..<length xs}"
    then have "i < length xs" by simp
    with p show "i \<in> (\<lambda>v. idm ! v) ` set xs"
      by (metis image_eqI nth_mem)
  qed
qed


text \<open>
  Claim C4. Let \<open>region_of_solution\<close> run in a reachable state on a well-formed mesh, and
  let \<open>idm\<close>, \<open>ros'\<close> and \<open>outside_ros\<close> be the ros-id map, the \<open>ros\<close> sequence and the
  outside ring it computes. The vertices of \<open>ros'\<close> and \<open>outside_ros\<close> are pairwise
  distinct, \<open>idm\<close> maps them one-to-one onto \<open>0 .. |ros'| + |outside_ros| - 1\<close>, the region of
  interest onto \<open>0 .. |roi| - 1\<close>, and every other vertex of the mesh has the mark
  \<open>not_assigned\<close>.
\<close>

theorem ros_ids_bijection:
  assumes "wf_polyhedron P0" and "reachable env P0 s"
    and "assign_ros_ids s = (idm, ros', outside_ros)"
  shows "ros_id_map (region_of_solution s) = idm \<and> ros (region_of_solution s) = ros'
         \<and> (need_preprocess s \<longrightarrow>
               ros_id_map (snd (preprocess env s)) = idm \<and> ros (snd (preprocess env s)) = ros')
         \<and> distinct (ros' @ outside_ros)
         \<and> set ros' \<union> set outside_ros \<subseteq> {..<num_vertices P0}
         \<and> bij_betw (\<lambda>v. idm ! v) (set ros' \<union> set outside_ros)
               {0..<length ros' + length outside_ros}
         \<and> set (roi s) \<subseteq> set ros'
         \<and> (\<lambda>v. idm ! v) ` set (roi s) = {0..<length (roi s)}
         \<and> (\<forall>v < num_vertices P0. v \<notin> set ros' \<union> set outside_ros \<longrightarrow> idm ! v = not_assigned)"
proof -
  from reachable_inv [OF assms(2)] have i: "registry_inv P0 s" by simp
  from assign_ros_ids_ok [OF i assms(1)] assms(3)
  have ok: "ids_ok (num_vertices P0) idm (ros' @ outside_ros)"
    by simp
  from assign_ros_ids_prefix [of s] assms(3) obtain sfx where sfx: "ros' = roi s @ sfx"
    by auto
  have a: "ros_id_map (region_of_solution s) = idm \<and> ros (region_of_solution s) = ros'"
    by (simp add: region_of_solution_ros region_of_solution_ros_id_map assms(3))
  have b: "need_preprocess s \<longrightarrow>
      ros_id_map (snd (preprocess env s)) = idm \<and> ros (snd (preprocess env s)) = ros'"
    by (simp add: preprocess_dirty Let_def region_of_solution_ros region_of_solution_ros_id_map
          assign_ros_ids_flag assms(3))
  from ok have c: "distinct (ros' @ outside_ros)"
    and d: "set ros' \<union> set outside_ros \<subseteq> {..<num_vertices P0}"
    and h: "\<forall>v < num_vertices P0. v \<notin> set ros' \<union> set outside_ros \<longrightarrow> idm ! v = not_assigned"
    by (simp_all add: ids_ok_def)
  from ids_ok_bij [OF ok]
  have e: "bij_betw (\<lambda>v. idm ! v) (set ros' \<union> set outside_ros)
      {0..<length ros' + length outside_ros}"
    by simp
  from sfx have f: "set (roi s) \<subseteq> set ros'"
    by simp
  from ok have "ids_ok (num_vertices P0) idm (roi s @ (sfx @ outside_ros))"
    by (simp add: sfx)
  from ids_ok_prefix(1) [OF this] have g: "(\<lambda>v. idm ! v) ` set (roi s) = {0..<length (roi s)}" .
  show ?thesis
    by (intro conjI a [THEN conjunct1] a [THEN conjunct2] b c d e f g h)
qed

lemma wf_two_triangles: "wf_polyhedron two_triangles"
proof -
  have v: "v < 4 \<longleftrightarrow> v = 0 \<or> v = 1 \<or> v = 2 \<or> v = 3" for v :: nat
    by auto
  have e: "e < 10 \<longleftrightarrow> e = 0 \<or> e = 1 \<or> e = 2 \<or> e = 3 \<or> e = 4 \<or> e = 5 \<or> e = 6 \<or> e = 7
      \<or> e = 8 \<or> e = 9" for e :: nat
    by auto
  have "num_vertices two_triangles \<le> not_assigned"
    by (simp add: two_triangles_def not_assigned_def)
  moreover have "\<forall>v < num_vertices two_triangles. \<forall>e \<in> set (in_edges two_triangles v).
      e < num_edges two_triangles \<and> source two_triangles e < num_vertices two_triangles"
    by (simp add: two_triangles_def v)
  moreover have "\<forall>v < num_vertices two_triangles. \<forall>e \<in> set (out_edges two_triangles v).
      e < num_edges two_triangles \<and> target two_triangles e < num_vertices two_triangles"
    by (simp add: two_triangles_def v)
  moreover have "\<forall>e < num_edges two_triangles.
      source two_triangles e < num_vertices two_triangles
      \<and> target two_triangles e < num_vertices two_triangles
      \<and> next_edge two_triangles e < num_edges two_triangles
      \<and> opposite_edge two_triangles e < num_edges two_triangles"
    by (simp add: two_triangles_def e)
  ultimately show ?thesis
    by (simp add: wf_polyhedron_def)
qed

text \<open>
  On the two triangles with vertex 0 in the region of interest: the neighbours 2 and 1
  of vertex 0 complete \<open>ros\<close>, and vertex 3 is the outside ring.
\<close>

theorem ros_ids_bijection_witness:
  "wf_polyhedron two_triangles
   \<and> reachable (counting_solver True ORIGINAL_ARAP) two_triangles
       (snd (insert_roi 0 (Deform_mesh (counting_solver True ORIGINAL_ARAP) two_triangles 5 0)))
   \<and> assign_ros_ids
       (snd (insert_roi 0 (Deform_mesh (counting_solver True ORIGINAL_ARAP) two_triangles 5 0)))
       = ([0, 2, 1, 3], [0, 2, 1], [3])
   \<and> ros (snd (preprocess (counting_solver True ORIGINAL_ARAP)
        (snd (insert_roi 0 (Deform_mesh (counting_solver True ORIGINAL_ARAP) two_triangles 5 0)))))
       = [0, 2, 1]
   \<and> bij_betw (\<lambda>v. [0, 2, 1, 3] ! v) (set [0, 2, 1] \<union> set [3]) {0..<length [0, 2, 1 :: nat] + length [3 :: nat]}"
proof -
  let ?E = "counting_solver True ORIGINAL_ARAP"
  let ?s = "snd (insert_roi 0 (Deform_mesh ?E two_triangles 5 0))"
  have r: "reachable ?E two_triangles ?s"
    by (rule r_insert_roi [OF r_Deform_mesh]) (simp add: two_triangles_def)
  have r4: "replicate 4 x = [x, x, x, x]" for x :: nat
    by (simp add: numeral_eq_Suc)
  have a: "assign_ros_ids ?s = ([0, 2, 1, 3], [0, 2, 1], [3])"
    by (simp add: assign_ros_ids_def assign_ros_id_to_one_ring_def insert_roi_def Deform_mesh_def
          is_roi_def two_triangles_def not_assigned_def Let_def r4)
  have f: "need_preprocess ?s"
    by (simp add: insert_roi_def Deform_mesh_def is_roi_def two_triangles_def)
  from ros_ids_bijection [OF wf_two_triangles r a] f wf_two_triangles r a show ?thesis
    by simp
qed

subsection \<open>The solver's data in reachable states\<close>

lemma solver_inv_solver_part:
  "solver_part s' = solver_part s \<Longrightarrow> solver_inv env P0 s \<Longrightarrow> solver_inv env P0 s'"
  by (simp add: solver_inv_def solver_part_def)

lemma solver_inv_preprocess_if_needed:
  assumes "wf_polyhedron P0" and "registry_inv P0 s" and "solver_inv env P0 s"
  shows "solver_inv env P0 (preprocess_if_needed env s)"
proof (cases "need_preprocess s")
  case False
  with assms(3) show ?thesis by (simp add: preprocess_if_needed_def)
next
  case True
  obtain idm ros' outside_ros where a: "assign_ros_ids s = (idm, ros', outside_ros)"
    by (cases "assign_ros_ids s") auto
  from assign_ros_ids_ok [OF assms(2,1)] a have "set ros' \<subseteq> {..<num_vertices P0}"
    by (simp add: ids_ok_def)
  with True assms(3) a show ?thesis
    by (simp add: preprocess_if_needed_def preprocess_dirty Let_def solver_inv_def
          region_of_solution_frame region_of_solution_ros assign_ros_ids_flag)
qed

lemma solver_inv_iterates:
  "solver_inv env P0 s \<Longrightarrow> solver_inv env P0 (s\<lparr> solution := sol \<rparr>)"
  "solver_inv env P0 s \<Longrightarrow> solver_inv env P0 (s\<lparr> solution := sol, rot_mtr := rm \<rparr>)"
  by (simp_all add: solver_inv_def)

lemma solver_inv_deform:
  assumes "wf_polyhedron P0" and "registry_inv P0 s" and "solver_inv env P0 s"
    and "deform env its tol s = Some s'"
  shows "solver_inv env P0 s'"
proof -
  from assms(4) obtain s1
    where s1: "s1 = (preprocess_if_needed env s)\<lparr> solution := solution s1, rot_mtr := rot_mtr s1 \<rparr>"
      and s': "s' = assign_solution s1"
    by (rule deform_result)
  from solver_inv_preprocess_if_needed [OF assms(1-3)]
  have "solver_inv env P0 s1"
    by (subst s1) (rule solver_inv_iterates)
  then show ?thesis
    by (simp add: s' assign_solution_def solver_inv_def)
qed

lemma reachable_solver_inv:
  assumes "wf_polyhedron P0" and "reachable env P0 s"
  shows "solver_inv env P0 s"
  using assms(2)
proof (induction rule: reachable.induct)
  case (r_Deform_mesh its tol)
  show ?case by (simp add: solver_inv_def Deform_mesh_def)
next
  case (r_reset s)
  then show ?case by (simp add: solver_inv_solver_part [OF solver_part_reset])
next
  case (r_create_handle_group s)
  then show ?case by (simp add: solver_inv_solver_part [OF solver_part_create_handle_group])
next
  case (r_insert_handle s g vd)
  then show ?case by (simp add: solver_inv_solver_part [OF solver_part_insert_handle])
next
  case (r_insert_handle_range s g vds)
  then show ?case by (simp add: solver_inv_solver_part [OF solver_part_insert_handle_range])
next
  case (r_erase_handle_group s g)
  then show ?case by (simp add: solver_inv_solver_part [OF solver_part_erase_handle_group])
next
  case (r_erase_handle s g vd)
  then show ?case by (simp add: solver_inv_solver_part [OF solver_part_erase_handle])
next
  case (r_erase_handle_search s vd b s')
  then show ?case by (simp add: solver_inv_solver_part [OF solver_part_erase_handle_search])
next
  case (r_insert_roi s vd)
  then show ?case by (simp add: solver_inv_solver_part [OF solver_part_insert_roi])
next
  case (r_insert_roi_range s vds)
  then show ?case by (simp add: solver_inv_solver_part [OF solver_part_insert_roi_range])
next
  case (r_erase_roi s vd b s')
  then show ?case by (simp add: solver_inv_solver_part [OF solver_part_erase_roi])
next
  case (r_preprocess s)
  from reachable_inv [OF r_preprocess.hyps] have i: "registry_inv P0 s" by simp
  from solver_inv_preprocess_if_needed [OF assms(1) i r_preprocess.IH, of ]
  have "solver_inv env P0 (preprocess_if_needed env s)" .
  moreover have "edge_weight (snd (preprocess env s)) = edge_weight (preprocess_if_needed env s)"
    "ros (snd (preprocess env s)) = ros (preprocess_if_needed env s)"
    by (simp_all add: preprocess_if_needed_def preprocess_clean)
  ultimately show ?case by (simp add: solver_inv_def)
next
  case (r_translate s g t)
  from reachable_inv [OF r_translate.hyps(1)] have i: "registry_inv P0 s" by simp
  from solver_inv_preprocess_if_needed [OF assms(1) i r_translate.IH] show ?case
    by (simp add: translate_def Let_def solver_inv_def)
next
  case (r_rotate s g c quat t)
  from reachable_inv [OF r_rotate.hyps(1)] have i: "registry_inv P0 s" by simp
  from solver_inv_preprocess_if_needed [OF assms(1) i r_rotate.IH] show ?case
    by (simp add: rotate_handles_def Let_def solver_inv_def)
next
  case (r_assign s vd p)
  from reachable_inv [OF r_assign.hyps(1)] have i: "registry_inv P0 s" by simp
  from solver_inv_preprocess_if_needed [OF assms(1) i r_assign.IH] show ?case
    by (simp add: assign_def Let_def solver_inv_def)
next
  case (r_deform s its tol s')
  from reachable_inv [OF r_deform.hyps(1)] have i: "registry_inv P0 s" by simp
  from solver_inv_deform [OF assms(1) i r_deform.IH r_deform.hyps(2)] show ?case .
next
  case (r_deform_default s s')
  from reachable_inv [OF r_deform_default.hyps(1)] have i: "registry_inv P0 s" by simp
  from solver_inv_deform [OF assms(1) i r_deform_default.IH] r_deform_default.hyps(2) show ?case
    by (simp add: deform_default_def)
next
  case (r_set_iterations s its)
  then show ?case by (simp add: solver_inv_def set_iterations_def)
next
  case (r_set_tolerance s tol)
  then show ?case by (simp add: solver_inv_def set_tolerance_def)
qed

subsection \<open>The sign of the energy\<close>

lemma DBL_MAX_pos: "0 < DBL_MAX"
  using DBL_MAX_ge by simp

lemma fl_not_below_zero:
  assumes "mono rnd" and "rnd 0 = 0" and "0 \<le> x"
  shows "not_below_zero (fl rnd x)"
proof -
  from assms(1,3) have "rnd 0 \<le> rnd x" by (rule monoD)
  with assms(2) have "0 \<le> rnd x" by simp
  with DBL_MAX_pos show ?thesis
    by (simp add: fl_def Let_def not_below_zero_def)
qed

lemma dmul_self_not_below_zero:
  assumes "mono rnd" and "rnd 0 = 0"
  shows "not_below_zero (dmul rnd a a)"
proof (cases a)
  case (Finite x)
  with fl_not_below_zero [OF assms, of "x * x"] show ?thesis by simp
qed (simp_all add: not_below_zero_def)

lemma dadd_not_below_zero:
  assumes "mono rnd" and "rnd 0 = 0" and "not_below_zero a" and "not_below_zero b"
  shows "not_below_zero (dadd rnd a b)"
proof (cases a)
  case a: (Finite x)
  show ?thesis
  proof (cases b)
    case (Finite y)
    with a assms(3,4) have "0 \<le> x + y" by (simp add: not_below_zero_def)
    from fl_not_below_zero [OF assms(1,2) this] a Finite show ?thesis by simp
  qed (use a assms(4) in \<open>simp_all add: not_below_zero_def\<close>)
next
  case PosInf
  with assms(4) show ?thesis by (cases b) (simp_all add: not_below_zero_def)
next
  case NegInf
  with assms(3) show ?thesis by (simp add: not_below_zero_def)
next
  case NaN
  then show ?thesis by (simp add: not_below_zero_def)
qed

lemma dmul_weight_not_below_zero:
  assumes "mono rnd" and "rnd 0 = 0" and "0 \<le> w" and "not_below_zero d"
  shows "not_below_zero (dmul rnd (Finite w) d)"
proof (cases d)
  case (Finite y)
  with assms(3,4) have "0 \<le> w * y" by (simp add: not_below_zero_def)
  from fl_not_below_zero [OF assms(1,2) this] Finite show ?thesis by simp
next
  case PosInf
  with assms(3) show ?thesis by (simp add: not_below_zero_def)
next
  case NegInf
  with assms(4) show ?thesis by (simp add: not_below_zero_def)
next
  case NaN
  then show ?thesis by (simp add: not_below_zero_def)
qed

lemma dsquaredNorm_not_below_zero:
  assumes "mono rnd" and "rnd 0 = 0"
  shows "not_below_zero (dsquaredNorm rnd v)"
proof -
  obtain a b c where v: "v = (a, b, c)" by (cases v) auto
  note sq = dmul_self_not_below_zero [OF assms]
  show ?thesis
    unfolding v dsquaredNorm_def prod.case
    by (intro dadd_not_below_zero [OF assms] sq)
qed

lemma energy_term_not_below_zero:
  assumes "mono rnd" and "rnd 0 = 0" and "0 \<le> w" and "not_below_zero a"
  shows "not_below_zero (dadd rnd a (dmul rnd (Finite w) (dsquaredNorm rnd v)))"
  by (intro dadd_not_below_zero [OF assms(1,2) assms(4)]
        dmul_weight_not_below_zero [OF assms(1,2,3)] dsquaredNorm_not_below_zero [OF assms(1,2)])

lemma fold_invariant:
  assumes "\<And>x a. x \<in> set xs \<Longrightarrow> Q a \<Longrightarrow> Q (f x a)" and "Q a"
  shows "Q (fold f xs a)"
  using assms by (induction xs arbitrary: a) simp_all

lemma fold_option_invariant:
  assumes "\<And>x a b. x \<in> set xs \<Longrightarrow> Q a \<Longrightarrow> f x a = Some b \<Longrightarrow> Q b"
    and "Q a" and "fold_option f xs a = Some r"
  shows "Q r"
  using assms
proof (induction xs arbitrary: a)
  case Nil
  then show ?case by simp
next
  case (Cons x xs)
  from Cons.prems(3) obtain b where b: "f x a = Some b" and r: "fold_option f xs b = Some r"
    by (auto split: option.splits)
  from Cons.prems(1) [OF _ Cons.prems(2) b] have "Q b" by simp
  moreover have "\<And>y a b. y \<in> set xs \<Longrightarrow> Q a \<Longrightarrow> f y a = Some b \<Longrightarrow> Q b"
    using Cons.prems(1) by auto
  ultimately show ?case
    using r by (intro Cons.IH [of b]) auto
qed

lemma fold_option_returns:
  assumes "\<And>x a. x \<in> set xs \<Longrightarrow> \<exists>b. f x a = Some b"
  shows "\<exists>r. fold_option f xs a = Some r"
  using assms
proof (induction xs arbitrary: a)
  case Nil
  then show ?case by simp
next
  case (Cons x xs)
  from Cons.prems [of x a] obtain b where "f x a = Some b" by auto
  with Cons.IH [of b] Cons.prems show ?case by simp
qed

lemma facet_loop_invariant:
  assumes "\<And>e a. e < num_edges P \<Longrightarrow> Q a \<Longrightarrow> Q (body e a)"
    and "\<And>e. e < num_edges P \<Longrightarrow> next_edge P e < num_edges P"
    and "e < num_edges P" and "Q acc" and "facet_loop k P body e0 e acc = Some r"
  shows "Q r"
  using assms(3-)
proof (induction k arbitrary: e acc)
  case 0
  then show ?case by simp
next
  case (Suc k)
  from assms(1) [OF Suc.prems(1,2)] have b: "Q (body e acc)" .
  show ?case
  proof (cases "next_edge P e = e0")
    case True
    with Suc.prems(3) b show ?thesis by (simp add: Let_def)
  next
    case False
    with Suc.prems(3) have "facet_loop k P body e0 (next_edge P e) (body e acc) = Some r"
      by (simp add: Let_def)
    from Suc.IH [OF assms(2) [OF Suc.prems(1)] b this] show ?thesis .
  qed
qed

text \<open>Around a triangle the loop returns, within \<open>num_edges\<close> rounds.\<close>

lemma facet_loop_triangle:
  assumes "next_edge P (next_edge P (next_edge P e)) = e"
    and "e < num_edges P" and "next_edge P e < num_edges P"
    and "next_edge P (next_edge P e) < num_edges P"
  shows "\<exists>r. facet_loop (num_edges P) P body e e acc = Some r"
proof (cases "next_edge P e = e")
  case True
  from assms(2) obtain k where "num_edges P = Suc k"
    by (cases "num_edges P") auto
  with True show ?thesis by (simp add: Let_def)
next
  case 1: False
  show ?thesis
  proof (cases "next_edge P (next_edge P e) = e")
    case True
    from 1 assms(2,3) obtain k where "num_edges P = Suc (Suc k)"
      by (cases "num_edges P"; cases "num_edges P - 1") auto
    with 1 True show ?thesis by (simp add: Let_def)
  next
    case 2: False
    have "next_edge P (next_edge P e) \<noteq> next_edge P e"
    proof
      assume "next_edge P (next_edge P e) = next_edge P e"
      with assms(1) have "next_edge P e = e" by simp
      with 1 show False by simp
    qed
    with 1 2 assms(2-4) have "3 \<le> num_edges P"
      by arith
    then obtain k where "num_edges P = Suc (Suc (Suc k))"
      by (metis Suc_le_D numeral_3_eq_3 Suc_le_mono)
    with 1 2 assms(1) show ?thesis by (simp add: Let_def)
  qed
qed

lemma energy_arap_not_below_zero:
  assumes "mono rnd" and "rnd 0 = 0"
    and "\<And>vi e. vi \<in> set (ros s) \<Longrightarrow> e \<in> set (in_edges (polyhedron s) vi) \<Longrightarrow> 0 \<le> edge_weight s ! e"
  shows "not_below_zero (energy_arap rnd s)"
  unfolding energy_arap_def Let_def
proof (rule fold_invariant [where Q = not_below_zero])
  fix vi a
  assume vi: "vi \<in> set (ros s)" and a: "not_below_zero a"
  show "not_below_zero (fold (\<lambda>e sum_of_energy.
      dadd rnd sum_of_energy
        (dmul rnd (Finite (edge_weight s ! e))
           (dsquaredNorm rnd
              (dvec_sub rnd
                 (dsub_to_col rnd (solution s ! ros_id s vi)
                    (solution s ! ros_id s (source (polyhedron s) e)))
                 (dmat_vec rnd (rot_mtr s ! ros_id s vi)
                    (dsub_to_col rnd (original s ! ros_id s vi)
                       (original s ! ros_id s (source (polyhedron s) e))))))))
      (in_edges (polyhedron s) vi) a)"
  proof (rule fold_invariant [where Q = not_below_zero])
    fix e b
    assume "e \<in> set (in_edges (polyhedron s) vi)" and "not_below_zero b"
    with assms(3) [OF vi] show "not_below_zero (dadd rnd b
        (dmul rnd (Finite (edge_weight s ! e))
           (dsquaredNorm rnd
              (dvec_sub rnd
                 (dsub_to_col rnd (solution s ! ros_id s vi)
                    (solution s ! ros_id s (source (polyhedron s) e)))
                 (dmat_vec rnd (rot_mtr s ! ros_id s vi)
                    (dsub_to_col rnd (original s ! ros_id s vi)
                       (original s ! ros_id s (source (polyhedron s) e))))))))"
      by (intro energy_term_not_below_zero [OF assms(1,2)])
  qed (rule a)
qed (simp add: not_below_zero_def)

lemma energy_spokes_and_rims_not_below_zero:
  assumes "mono rnd" and "rnd 0 = 0"
    and w: "\<And>e. e < num_edges (polyhedron s) \<Longrightarrow> 0 \<le> edge_weight s ! e"
    and oute: "\<And>vi e. vi \<in> set (ros s) \<Longrightarrow> e \<in> set (out_edges (polyhedron s) vi)
                 \<Longrightarrow> e < num_edges (polyhedron s)"
    and nxt: "\<And>e. e < num_edges (polyhedron s) \<Longrightarrow> next_edge (polyhedron s) e < num_edges (polyhedron s)"
    and E: "energy_spokes_and_rims rnd s = Some E"
  shows "not_below_zero E"
proof -
  let ?P = "polyhedron s"
  have body: "not_below_zero (dadd rnd a (dmul rnd (Finite (edge_weight s ! e)) (dsquaredNorm rnd x)))"
    if "e < num_edges ?P" "not_below_zero a" for e a x
    using that w [of e] by (intro energy_term_not_below_zero [OF assms(1,2)])
  show ?thesis
    using E unfolding energy_spokes_and_rims_def Let_def
  proof (rule fold_option_invariant [where Q = not_below_zero, rotated 2])
    fix vi a b
    assume vi: "vi \<in> set (ros s)" and a: "not_below_zero a"
    assume "fold_option (\<lambda>e sum_of_energy.
        if edge_is_border ?P e then Some sum_of_energy
        else facet_loop (num_edges ?P) ?P
          (\<lambda>edge_around_facet sum_of_energy.
              dadd rnd sum_of_energy
                (dmul rnd (Finite (edge_weight s ! edge_around_facet))
                   (dsquaredNorm rnd
                      (dvec_sub rnd
                         (dsub_to_col rnd (solution s ! ros_id s (target ?P edge_around_facet))
                            (solution s ! ros_id s (source ?P edge_around_facet)))
                         (dmat_vec rnd (rot_mtr s ! ros_id s vi)
                            (dsub_to_col rnd (original s ! ros_id s (target ?P edge_around_facet))
                               (original s ! ros_id s (source ?P edge_around_facet))))))))
          e e sum_of_energy) (out_edges ?P vi) a = Some b"
    then show "not_below_zero b"
    proof (rule fold_option_invariant [where Q = not_below_zero, rotated 2])
      fix e c d
      assume e: "e \<in> set (out_edges ?P vi)" and c: "not_below_zero c"
      from oute [OF vi e] have lt: "e < num_edges ?P" .
      assume "(if edge_is_border ?P e then Some c
        else facet_loop (num_edges ?P) ?P
          (\<lambda>edge_around_facet sum_of_energy.
              dadd rnd sum_of_energy
                (dmul rnd (Finite (edge_weight s ! edge_around_facet))
                   (dsquaredNorm rnd
                      (dvec_sub rnd
                         (dsub_to_col rnd (solution s ! ros_id s (target ?P edge_around_facet))
                            (solution s ! ros_id s (source ?P edge_around_facet)))
                         (dmat_vec rnd (rot_mtr s ! ros_id s vi)
                            (dsub_to_col rnd (original s ! ros_id s (target ?P edge_around_facet))
                               (original s ! ros_id s (source ?P edge_around_facet))))))))
          e e c) = Some d"
      then consider "edge_is_border ?P e" "d = c"
        | "facet_loop (num_edges ?P) ?P
          (\<lambda>edge_around_facet sum_of_energy.
              dadd rnd sum_of_energy
                (dmul rnd (Finite (edge_weight s ! edge_around_facet))
                   (dsquaredNorm rnd
                      (dvec_sub rnd
                         (dsub_to_col rnd (solution s ! ros_id s (target ?P edge_around_facet))
                            (solution s ! ros_id s (source ?P edge_around_facet)))
                         (dmat_vec rnd (rot_mtr s ! ros_id s vi)
                            (dsub_to_col rnd (original s ! ros_id s (target ?P edge_around_facet))
                               (original s ! ros_id s (source ?P edge_around_facet))))))))
          e e c = Some d"
        by (cases "edge_is_border ?P e") simp_all
      then show "not_below_zero d"
      proof cases
        case 1
        with c show ?thesis by simp
      next
        case 2
        show ?thesis
          by (rule facet_loop_invariant [where Q = not_below_zero, OF _ nxt lt c 2]) (rule body)
      qed
    qed (rule a)
  qed (simp add: not_below_zero_def)
qed

lemma energy_spokes_and_rims_returns:
  assumes tri: "\<And>e. e < num_edges (polyhedron s) \<Longrightarrow> \<not> edge_is_border (polyhedron s) e
                 \<Longrightarrow> next_edge (polyhedron s) (next_edge (polyhedron s) (next_edge (polyhedron s) e)) = e"
    and oute: "\<And>vi e. vi \<in> set (ros s) \<Longrightarrow> e \<in> set (out_edges (polyhedron s) vi)
                 \<Longrightarrow> e < num_edges (polyhedron s)"
    and nxt: "\<And>e. e < num_edges (polyhedron s) \<Longrightarrow> next_edge (polyhedron s) e < num_edges (polyhedron s)"
  shows "\<exists>E. energy_spokes_and_rims rnd s = Some E"
  unfolding energy_spokes_and_rims_def Let_def
proof (rule fold_option_returns)
  let ?P = "polyhedron s"
  fix vi a
  assume vi: "vi \<in> set (ros s)"
  show "\<exists>b. fold_option (\<lambda>e sum_of_energy.
        if edge_is_border ?P e then Some sum_of_energy
        else facet_loop (num_edges ?P) ?P
          (\<lambda>edge_around_facet sum_of_energy.
              dadd rnd sum_of_energy
                (dmul rnd (Finite (edge_weight s ! edge_around_facet))
                   (dsquaredNorm rnd
                      (dvec_sub rnd
                         (dsub_to_col rnd (solution s ! ros_id s (target ?P edge_around_facet))
                            (solution s ! ros_id s (source ?P edge_around_facet)))
                         (dmat_vec rnd (rot_mtr s ! ros_id s vi)
                            (dsub_to_col rnd (original s ! ros_id s (target ?P edge_around_facet))
                               (original s ! ros_id s (source ?P edge_around_facet))))))))
          e e sum_of_energy) (out_edges ?P vi) a = Some b"
  proof (rule fold_option_returns)
    fix e c
    assume e: "e \<in> set (out_edges ?P vi)"
    from oute [OF vi e] have lt: "e < num_edges ?P" .
    show "\<exists>d. (if edge_is_border ?P e then Some c
          else facet_loop (num_edges ?P) ?P
            (\<lambda>edge_around_facet sum_of_energy.
              dadd rnd sum_of_energy
                (dmul rnd (Finite (edge_weight s ! edge_around_facet))
                   (dsquaredNorm rnd
                      (dvec_sub rnd
                         (dsub_to_col rnd (solution s ! ros_id s (target ?P edge_around_facet))
                            (solution s ! ros_id s (source ?P edge_around_facet)))
                         (dmat_vec rnd (rot_mtr s ! ros_id s vi)
                            (dsub_to_col rnd (original s ! ros_id s (target ?P edge_around_facet))
                               (original s ! ros_id s (source ?P edge_around_facet))))))))
            e e c) = Some d"
    proof (cases "edge_is_border ?P e")
      case True
      then show ?thesis by simp
    next
      case False
      from facet_loop_triangle [OF tri [OF lt False] lt nxt [OF lt] nxt [OF nxt [OF lt]]] False
      show ?thesis by simp
    qed
  qed
qed

text \<open>
  Claim C6, as the code has it. In a reachable state on a well-formed mesh, when the
  weight functor returned no negative weight and the rounding of the machine is monotone
  and keeps zero, the energy of either variant is not below zero: it is a number from
  zero on, the positive infinity, or, after an overflow, not a number. On a triangulated
  mesh the energy function returns.
\<close>

theorem energy_nonneg:
  assumes "wf_polyhedron P0" and "reachable env P0 s"
    and "\<forall>e < num_edges P0. 0 \<le> weight_calculator env e P0"
    and "mono (rounding env)" and "rounding env 0 = 0"
  shows "(energy_arap (rounding env) s = NaN \<or> dle (Finite 0) (energy_arap (rounding env) s))
         \<and> (\<forall>E. energy_spokes_and_rims (rounding env) s = Some E \<longrightarrow> E = NaN \<or> dle (Finite 0) E)
         \<and> (\<forall>E. energy env s = Some E \<longrightarrow> E = NaN \<or> dle (Finite 0) E)
         \<and> (triangulated P0 \<longrightarrow> (\<exists>E. energy env s = Some E \<and> (E = NaN \<or> dle (Finite 0) E)))"
proof -
  let ?P = "polyhedron s"
  let ?rnd = "rounding env"
  from reachable_inv [OF assms(2)] have i: "registry_inv P0 s" by simp
  note F = same_connectivity_fields [OF registry_invD(1) [OF i]]
  from reachable_solver_inv [OF assms(1,2)]
  have ew: "edge_weight s = map (\<lambda>e. weight_calculator env e P0) [0..<num_edges P0]"
    and ros: "\<And>vi. vi \<in> set (ros s) \<Longrightarrow> vi < num_vertices P0"
    by (auto simp: solver_inv_def)
  have w: "0 \<le> edge_weight s ! e" if "e < num_edges ?P" for e
    using that assms(3) by (simp add: ew F)
  from assms(1) have ine: "\<And>v e. v < num_vertices P0 \<Longrightarrow> e \<in> set (in_edges ?P v) \<Longrightarrow> e < num_edges ?P"
    and oute: "\<And>v e. v < num_vertices P0 \<Longrightarrow> e \<in> set (out_edges ?P v) \<Longrightarrow> e < num_edges ?P"
    and nxt: "\<And>e. e < num_edges ?P \<Longrightarrow> next_edge ?P e < num_edges ?P"
    by (simp_all add: wf_polyhedron_def F)
  have arap: "not_below_zero (energy_arap ?rnd s)"
    by (rule energy_arap_not_below_zero [OF assms(4,5)]) (rule w [OF ine [OF ros]])
  have spokes: "not_below_zero E" if "energy_spokes_and_rims ?rnd s = Some E" for E
    by (rule energy_spokes_and_rims_not_below_zero [OF assms(4,5) w oute [OF ros] nxt that])
  have en: "not_below_zero E" if "energy env s = Some E" for E
    using that arap spokes by (auto simp: energy_def split: if_splits)
  have ret: "\<exists>E. energy env s = Some E" if t: "triangulated P0"
  proof (cases "deformation_type env = SPOKES_AND_RIMS")
    case False
    then show ?thesis by (simp add: energy_def)
  next
    case True
    have "\<exists>E. energy_spokes_and_rims ?rnd s = Some E"
    proof (rule energy_spokes_and_rims_returns [OF _ oute [OF ros] nxt])
      fix e
      assume "e < num_edges ?P" "\<not> edge_is_border ?P e"
      with t show "next_edge ?P (next_edge ?P (next_edge ?P e)) = e"
        by (simp add: triangulated_def F)
    qed
    with True show ?thesis by (simp add: energy_def)
  qed
  from arap spokes en ret show ?thesis
    unfolding not_below_zero_def by blast
qed

lemma wf_triangle: "wf_polyhedron triangle"
proof -
  have v: "v < 3 \<longleftrightarrow> v = 0 \<or> v = 1 \<or> v = 2" for v :: nat
    by auto
  have e: "e < 6 \<longleftrightarrow> e = 0 \<or> e = 1 \<or> e = 2 \<or> e = 3 \<or> e = 4 \<or> e = 5" for e :: nat
    by auto
  have "num_vertices triangle \<le> not_assigned"
    by (simp add: triangle_def not_assigned_def)
  moreover have "\<forall>v < num_vertices triangle. \<forall>e \<in> set (in_edges triangle v).
      e < num_edges triangle \<and> source triangle e < num_vertices triangle"
    by (simp add: triangle_def v)
  moreover have "\<forall>v < num_vertices triangle. \<forall>e \<in> set (out_edges triangle v).
      e < num_edges triangle \<and> target triangle e < num_vertices triangle"
    by (simp add: triangle_def v)
  moreover have "\<forall>e < num_edges triangle.
      source triangle e < num_vertices triangle \<and> target triangle e < num_vertices triangle
      \<and> next_edge triangle e < num_edges triangle
      \<and> opposite_edge triangle e < num_edges triangle"
    by (simp add: triangle_def e)
  ultimately show ?thesis
    by (simp add: wf_polyhedron_def)
qed

lemma triangulated_triangle: "triangulated triangle"
proof -
  have e: "e < 6 \<longleftrightarrow> e = 0 \<or> e = 1 \<or> e = 2 \<or> e = 3 \<or> e = 4 \<or> e = 5" for e :: nat
    by auto
  show ?thesis
    by (simp add: triangulated_def triangle_def e)
qed

lemma reachable_free_vertex:
  "reachable (counting_solver True ORIGINAL_ARAP) triangle free_vertex"
  unfolding free_vertex_def
  by (rule r_insert_roi [OF r_Deform_mesh]) (simp add: triangle_def)

lemma reachable_free_vertex_moved:
  "reachable (counting_solver True ORIGINAL_ARAP) triangle free_vertex_moved"
  by (rule r_deform [OF reachable_free_vertex free_vertex_deform])

lemma free_vertex_moved_energy: "energy_arap (\<lambda>x. x) free_vertex_moved = Finite 32"
  by (simp add: energy_arap_def free_vertex_moved_def free_vertex_def
        eval_defs solver_eval_defs double_eval_defs numeral_3_eq_3)

lemma free_vertex_moved_energy_spokes_and_rims:
  "energy_spokes_and_rims (\<lambda>x. x) free_vertex_moved = Some (Finite 48)"
  by (simp add: energy_spokes_and_rims_def free_vertex_moved_def free_vertex_def
        eval_defs solver_eval_defs double_eval_defs numeral_3_eq_3 facet_loop_unfold)

text \<open>
  On the triangle with uniform weights, after one iteration that moved vertex 0, the
  energy is 32 in the one-ring variant; the energy of the other variant is 48 there.
\<close>

theorem energy_nonneg_witness:
  "wf_polyhedron triangle
   \<and> triangulated triangle
   \<and> reachable (counting_solver True ORIGINAL_ARAP) triangle free_vertex_moved
   \<and> energy (counting_solver True ORIGINAL_ARAP) free_vertex_moved = Some (Finite 32)
   \<and> energy_spokes_and_rims (\<lambda>x. x) free_vertex_moved = Some (Finite 48)
   \<and> dle (Finite 0) (energy_arap (\<lambda>x. x) free_vertex_moved)"
proof -
  let ?E = "counting_solver True ORIGINAL_ARAP"
  have w: "\<forall>e < num_edges triangle. 0 \<le> weight_calculator ?E e triangle"
    by (simp add: counting_solver_fields)
  have m: "mono (rounding ?E)" and z: "rounding ?E 0 = 0"
    by (simp_all add: counting_solver_fields mono_def)
  have e: "energy ?E free_vertex_moved = Some (Finite 32)"
    by (simp add: energy_def counting_solver_fields free_vertex_moved_energy)
  from energy_nonneg [OF wf_triangle reachable_free_vertex_moved w m z]
    wf_triangle triangulated_triangle reachable_free_vertex_moved e
    free_vertex_moved_energy_spokes_and_rims
  show ?thesis by (simp add: counting_solver_fields free_vertex_moved_energy)
qed

lemma negative_weights_fields:
  "deformation_type negative_weights = ORIGINAL_ARAP"
  "weight_calculator negative_weights = (\<lambda>e P. - 1)"
  "solver_init negative_weights = 0"
  "pre_factor negative_weights = (\<lambda>sv A. (True, Suc sv))"
  "linear_solver negative_weights = (\<lambda>sv B. B)"
  "svd negative_weights = (\<lambda>M. (mat_identity, mat_identity))"
  "rounding negative_weights = (\<lambda>x. x)"
  by (simp_all add: negative_weights_def counting_solver_def)

lemma negative_deform:
  "deform negative_weights 1 0 (snd (insert_roi 0 (Deform_mesh negative_weights triangle 5 0)))
     = Some negative_moved"
  by (simp add: negative_moved_def eval_defs solver_eval_defs negative_weights_fields
        numeral_3_eq_3)

lemma huge_bounds: "huge \<le> DBL_MAX" "DBL_MAX < 2 * huge" "0 < huge"
  by (simp_all add: huge_def DBL_MAX_def)

lemma fl_huge:
  "fl (\<lambda>x. x) huge = Finite huge"
  "fl (\<lambda>x. x) (- huge) = Finite (- huge)"
  "fl (\<lambda>x. x) (2 * huge) = PosInf"
  "fl (\<lambda>x. x) (- (2 * huge)) = NegInf"
  using huge_bounds by (simp_all add: fl_def Let_def)

lemma wf_wide_triangle: "wf_polyhedron wide_triangle" "triangulated wide_triangle"
  using wf_triangle triangulated_triangle
  by (simp_all add: wide_triangle_def wf_polyhedron_def triangulated_def)

lemma wide_preprocess:
  "preprocess (counting_solver True ORIGINAL_ARAP)
     (snd (insert_roi 0 (Deform_mesh (counting_solver True ORIGINAL_ARAP) wide_triangle 5 0)))
     = (True, wide_ready)"
  by (simp add: wide_ready_def wide_triangle_def eval_defs numeral_3_eq_3)

lemma reachable_wide_ready:
  "reachable (counting_solver True ORIGINAL_ARAP) wide_triangle wide_ready"
proof -
  let ?E = "counting_solver True ORIGINAL_ARAP"
  have "reachable ?E wide_triangle (snd (insert_roi 0 (Deform_mesh ?E wide_triangle 5 0)))"
    by (rule r_insert_roi [OF r_Deform_mesh]) (simp add: wide_triangle_def triangle_def)
  from r_preprocess [OF this] show ?thesis
    by (simp add: wide_preprocess)
qed

lemma wide_energy: "energy_arap (\<lambda>x. x) wide_ready = NaN"
  by (simp add: energy_arap_def wide_ready_def wide_triangle_def
        eval_defs solver_eval_defs double_eval_defs fl_huge numeral_3_eq_3)

text \<open>
  Claim C6 as stated fails, in two ways. With a weight functor that returns \<open>-1\<close> for
  every edge, one iteration of \<open>deform\<close> on the triangle with vertex 0 in the region of
  interest leads to a state, preprocessing done, whose energy is \<open>-32\<close>. With uniform
  weights, on the triangle whose vertices 0 and 1 lie \<open>2 ^ 1023\<close> to either side of the
  origin, the difference of their positions overflows and the energy of the
  preprocessed state is not a number, for which \<open>>= 0\<close> is false.
\<close>

theorem energy_negative_counterexample:
  "reachable negative_weights triangle negative_moved
   \<and> \<not> need_preprocess negative_moved
   \<and> energy negative_weights negative_moved = Some (Finite (- 32))
   \<and> \<not> dle (Finite 0) (Finite (- 32))
   \<and> wf_polyhedron wide_triangle
   \<and> reachable (counting_solver True ORIGINAL_ARAP) wide_triangle wide_ready
   \<and> \<not> need_preprocess wide_ready
   \<and> edge_weight wide_ready = [1, 1, 1, 1, 1, 1]
   \<and> energy (counting_solver True ORIGINAL_ARAP) wide_ready = Some NaN
   \<and> \<not> dle (Finite 0) NaN"
proof -
  have "reachable negative_weights triangle
      (snd (insert_roi 0 (Deform_mesh negative_weights triangle 5 0)))"
    by (rule r_insert_roi [OF r_Deform_mesh]) (simp add: triangle_def)
  from r_deform [OF this negative_deform] have "reachable negative_weights triangle negative_moved" .
  moreover have "energy_arap (\<lambda>x. x) negative_moved = Finite (- 32)"
    by (simp add: energy_arap_def negative_moved_def eval_defs solver_eval_defs
          double_eval_defs negative_weights_fields numeral_3_eq_3)
  moreover have "edge_weight wide_ready = [1, 1, 1, 1, 1, 1]"
    by (simp add: wide_ready_def wide_triangle_def eval_defs upt_rec)
  moreover have "\<not> need_preprocess negative_moved" "\<not> need_preprocess wide_ready"
    by (simp_all add: negative_moved_def wide_ready_def)
  ultimately show ?thesis
    using wf_wide_triangle(1) reachable_wide_ready
    by (simp add: energy_def negative_weights_fields counting_solver_fields wide_energy)
qed

end
